theory Spec2Isabelle
  imports Complex_Main "HOL-Library.List_Lexorder" "HOL-Library.Char_ord" "HOL-Library.Multiset"
begin

section \<open>Python values and built-ins used by the monitor\<close>

text \<open>
  The analytics engine (\<^verbatim>\<open>analytics/analyzer.py\<close>) computes on Python floats and the
  store (\<^verbatim>\<open>database/metrics_db.py\<close>) on rows of an SQLite table. Floats are modelled as
  the real numbers they denote: every operation is exact, and NaN, the infinities and
  rounding error are outside the model. The one float operation of the engine that can
  raise, the conversion of an integer beyond the float range, is modelled with its
  exception. Python's unbounded integers are \<open>int\<close>. An exception is a value of
  \<open>py_error\<close>, returned on the left of a sum.
\<close>

datatype py_error =
    ZeroDivisionError
  | IndexError
  | ValueError
  | StatisticsError
  | OverflowError
  | TypeError
  | DatabaseError

text \<open>True division \<^verbatim>\<open>a / b\<close> on floats raises when the divisor is zero.\<close>

definition py_truediv :: "real \<Rightarrow> real \<Rightarrow> py_error + real" where
  "py_truediv a b = (if b = 0 then Inl ZeroDivisionError else Inr (a / b))"

text \<open>
  Slice bounds: a negative bound counts from the end, and every bound is clipped to
  \<open>0..len\<close>; a missing bound is the start (resp. the end) of the list.
\<close>

definition slice_index :: "nat \<Rightarrow> int \<Rightarrow> nat" where
  "slice_index n k = (if k < 0 then nat (int n + k) else min n (nat k))"

definition py_slice :: "'a list \<Rightarrow> int option \<Rightarrow> int option \<Rightarrow> 'a list" where
  "py_slice xs start stop =
     (let n = length xs;
          lo = (case start of None \<Rightarrow> 0 | Some k \<Rightarrow> slice_index n k);
          hi = (case stop of None \<Rightarrow> n | Some k \<Rightarrow> slice_index n k)
      in take (hi - lo) (drop lo xs))"

text \<open>Indexing \<^verbatim>\<open>xs[i]\<close>: a negative index counts from the end, out of range raises.\<close>

definition py_getitem :: "'a list \<Rightarrow> int \<Rightarrow> py_error + 'a" where
  "py_getitem xs i =
     (let j = (if i < 0 then int (length xs) + i else i)
      in if 0 \<le> j \<and> j < int (length xs) then Inr (xs ! nat j) else Inl IndexError)"

text \<open>\<^verbatim>\<open>range(n)\<close> is empty for \<open>n \<le> 0\<close>.\<close>

definition py_range :: "int \<Rightarrow> nat list" where
  "py_range n = [0..<nat n]"

section \<open>Analytics engine\<close>

subsection \<open>\<^verbatim>\<open>calculate_moving_average\<close>\<close>

text \<open>
  The loop body takes the slice \<^verbatim>\<open>values[i:i + window_size]\<close> and appends
  \<^verbatim>\<open>sum(window) / window_size\<close>; the division raises for a zero window size.
\<close>

fun moving_average_loop ::
  "real list \<Rightarrow> int \<Rightarrow> nat list \<Rightarrow> real list \<Rightarrow> py_error + real list" where
  "moving_average_loop values window_size [] moving_averages = Inr moving_averages"
| "moving_average_loop values window_size (i # rest) moving_averages =
     (let window = py_slice values (Some (int i)) (Some (int i + window_size))
      in case py_truediv (sum_list window) (of_int window_size) of
           Inl e \<Rightarrow> Inl e
         | Inr m \<Rightarrow> moving_average_loop values window_size rest (moving_averages @ [m]))"

definition calculate_moving_average :: "real list \<Rightarrow> int \<Rightarrow> py_error + real list" where
  "calculate_moving_average values window_size =
     (if int (length values) < window_size then Inr values
      else moving_average_loop values window_size
             (py_range (int (length values) - window_size + 1)) [])"

text \<open>The spec's reading: the arithmetic mean of the window of length \<open>w\<close> that starts at \<open>i\<close>.\<close>

definition window_mean :: "real list \<Rightarrow> nat \<Rightarrow> nat \<Rightarrow> real" where
  "window_mean values w i = sum_list (take w (drop i values)) / real w"

subsection \<open>\<^verbatim>\<open>detect_trend\<close>\<close>

text \<open>
  The divisions by \<open>n\<close>, by \<open>denominator\<close> and by \<open>y_mean\<close> are each reached only after
  the source has checked that the divisor is not zero, and \<^verbatim>\<open>values[i]\<close> is read for
  \<open>i\<close> in \<^verbatim>\<open>range(n)\<close> only.
\<close>

definition detect_trend :: "real list \<Rightarrow> real \<Rightarrow> string" where
  "detect_trend values threshold =
     (if length values < 2 then ''stable''
      else
        let n = length values;
            x_mean = (real n - 1) / 2;
            y_mean = sum_list values / real n;
            numerator = sum_list (map (\<lambda>i. (real i - x_mean) * (values ! i - y_mean)) (py_range (int n)));
            denominator = sum_list (map (\<lambda>i. (real i - x_mean)\<^sup>2) (py_range (int n)))
        in if denominator = 0 then ''stable''
           else
             let slope = numerator / denominator;
                 change_rate = (if y_mean \<noteq> 0 then \<bar>slope / y_mean\<bar> else 0)
             in if change_rate < threshold then ''stable''
                else if slope > 0 then ''increasing''
                else ''decreasing'')"

subsection \<open>\<^verbatim>\<open>statistics.mean\<close>, \<^verbatim>\<open>statistics.stdev\<close>, \<^verbatim>\<open>statistics.median\<close>, \<^verbatim>\<open>min\<close>, \<^verbatim>\<open>max\<close>\<close>

text \<open>
  The standard library computes the mean and the sum of squared deviations exactly (on
  fractions); \<^verbatim>\<open>stdev\<close> is the square root of the sample variance. Each raises on too
  few data points.
\<close>

definition statistics_mean :: "real list \<Rightarrow> py_error + real" where
  "statistics_mean data =
     (if length data < 1 then Inl StatisticsError
      else Inr (sum_list data / real (length data)))"

definition statistics_stdev :: "real list \<Rightarrow> py_error + real" where
  "statistics_stdev data =
     (if length data < 2 then Inl StatisticsError
      else
        let c = sum_list data / real (length data);
            ss = sum_list (map (\<lambda>x. (x - c)\<^sup>2) data);
            mss = ss / (real (length data) - 1)
        in Inr (sqrt mss))"

definition statistics_median :: "real list \<Rightarrow> py_error + real" where
  "statistics_median xs =
     (let data = sort xs; n = length data
      in if n = 0 then Inl StatisticsError
         else if n mod 2 = 1 then Inr (data ! (n div 2))
         else let i = n div 2 in Inr ((data ! (i - 1) + data ! i) / 2))"

definition py_min :: "real list \<Rightarrow> py_error + real" where
  "py_min xs = (case xs of [] \<Rightarrow> Inl ValueError | x # rest \<Rightarrow> Inr (fold min rest x))"

definition py_max :: "real list \<Rightarrow> py_error + real" where
  "py_max xs = (case xs of [] \<Rightarrow> Inl ValueError | x # rest \<Rightarrow> Inr (fold max rest x))"

subsection \<open>\<^verbatim>\<open>detect_anomalies\<close>\<close>

text \<open>
  The loop over \<^verbatim>\<open>enumerate(values)\<close>; the division by \<open>stdev\<close> comes after the check
  \<^verbatim>\<open>stdev == 0\<close>. The \<^verbatim>\<open>except\<close> clause turns any exception of the body into the empty
  list.
\<close>

fun anomalies_loop :: "(nat \<times> real) list \<Rightarrow> real \<Rightarrow> real \<Rightarrow> real \<Rightarrow> nat list \<Rightarrow> nat list" where
  "anomalies_loop [] mean stdev std_threshold anomalies = anomalies"
| "anomalies_loop ((i, v) # rest) mean stdev std_threshold anomalies =
     (let z_score = \<bar>(v - mean) / stdev\<bar>
      in if z_score > std_threshold
         then anomalies_loop rest mean stdev std_threshold (anomalies @ [i])
         else anomalies_loop rest mean stdev std_threshold anomalies)"

definition detect_anomalies :: "real list \<Rightarrow> real \<Rightarrow> nat list" where
  "detect_anomalies values std_threshold =
     (if length values < 3 then []
      else
        case statistics_mean values of
          Inl e \<Rightarrow> []
        | Inr mean \<Rightarrow>
            (case statistics_stdev values of
               Inl e \<Rightarrow> []
             | Inr stdev \<Rightarrow>
                 if stdev = 0 then []
                 else anomalies_loop (enumerate 0 values) mean stdev std_threshold []))"

subsection \<open>\<^verbatim>\<open>_percentile\<close> and \<^verbatim>\<open>calculate_percentiles\<close>\<close>

text \<open>\<^verbatim>\<open>int(x)\<close> on a float truncates towards zero.\<close>

definition py_int :: "real \<Rightarrow> int" where
  "py_int x = (if 0 \<le> x then \<lfloor>x\<rfloor> else \<lceil>x\<rceil>)"

definition py_bind :: "py_error + 'a \<Rightarrow> ('a \<Rightarrow> py_error + 'b) \<Rightarrow> py_error + 'b" where
  "py_bind m f = (case m of Inl e \<Rightarrow> Inl e | Inr x \<Rightarrow> f x)"

definition percentile :: "real list \<Rightarrow> int \<Rightarrow> py_error + real" where
  "percentile sorted_values p =
     (if sorted_values = [] then Inr 0
      else
        let index = of_int ((int (length sorted_values) - 1) * p) / 100;
            lower = py_int index;
            upper = lower + 1
        in if upper \<ge> int (length sorted_values) then py_getitem sorted_values lower
           else
             let weight = index - of_int lower
             in py_bind (py_getitem sorted_values lower) (\<lambda>a.
                py_bind (py_getitem sorted_values upper) (\<lambda>b.
                Inr (a * (1 - weight) + b * weight))))"

text \<open>The returned dict, as the list of its items in insertion order; \<^verbatim>\<open>{}\<close> is \<open>[]\<close>.\<close>

definition calculate_percentiles :: "real list \<Rightarrow> py_error + (string \<times> real) list" where
  "calculate_percentiles values =
     (if values = [] then Inr []
      else
        let sorted_values = sort values
        in py_bind (py_min values) (\<lambda>mn.
           py_bind (py_max values) (\<lambda>mx.
           py_bind (statistics_mean values) (\<lambda>mean.
           py_bind (statistics_median values) (\<lambda>median.
           py_bind (percentile sorted_values 25) (\<lambda>p25.
           py_bind (percentile sorted_values 75) (\<lambda>p75.
           py_bind (percentile sorted_values 90) (\<lambda>p90.
           py_bind (percentile sorted_values 95) (\<lambda>p95.
           py_bind (percentile sorted_values 99) (\<lambda>p99.
           Inr [(''min'', mn), (''max'', mx), (''mean'', mean), (''median'', median),
                (''p25'', p25), (''p75'', p75), (''p90'', p90), (''p95'', p95),
                (''p99'', p99)]))))))))))"

subsection \<open>\<^verbatim>\<open>predict_next_value\<close>\<close>




subsection \<open>\<^verbatim>\<open>analyze_metric_history\<close>\<close>

text \<open>
  A record is a dict from strings to JSON values; \<^verbatim>\<open>metric_data\<close> holds what
  \<^verbatim>\<open>json.loads\<close> returned. A dict is a map, so a key occurs at most once.
\<close>

datatype json =
    JNull
  | JBool bool
  | JInt int
  | JFloat real
  | JStr string
  | JList "json list"
  | JDict "string \<Rightarrow> json option"

type_synonym py_dict = "string \<Rightarrow> json option"

text \<open>
  \<^verbatim>\<open>isinstance(value, (int, float))\<close>: \<^verbatim>\<open>bool\<close> is a subclass of \<^verbatim>\<open>int\<close>, so a
  boolean passes the test.
\<close>

definition is_number :: "json \<Rightarrow> bool" where
  "is_number v = (case v of JInt i \<Rightarrow> True | JFloat x \<Rightarrow> True | JBool b \<Rightarrow> True | _ \<Rightarrow> False)"

text \<open>
  \<^verbatim>\<open>float(value)\<close>: a float is itself, a boolean is 1.0 or 0.0, and an integer converts
  unless it rounds to a magnitude of \<open>2\<^sup>1\<^sup>0\<^sup>2\<^sup>4\<close> or more, where the conversion raises
  OverflowError. Below that bound the integer is taken as the real it denotes. The call is
  made for numbers only.
\<close>

definition float_limit :: int where
  "float_limit = 2 ^ 1024 - 2 ^ 970"

definition py_float :: "json \<Rightarrow> py_error + real" where
  "py_float v =
     (case v of
        JInt i \<Rightarrow> if \<bar>i\<bar> \<ge> float_limit then Inl OverflowError else Inr (of_int i)
      | JFloat x \<Rightarrow> Inr x
      | JBool b \<Rightarrow> Inr (if b then 1 else 0)
      | _ \<Rightarrow> Inl TypeError)"

fun extract_values :: "py_dict list \<Rightarrow> string \<Rightarrow> real list \<Rightarrow> py_error + real list" where
  "extract_values [] metric_key values = Inr values"
| "extract_values (record # rest) metric_key values =
     (let data = (case record ''metric_data'' of None \<Rightarrow> JDict Map.empty | Some d \<Rightarrow> d)
      in case data of
           JDict m \<Rightarrow>
             (case m metric_key of
                None \<Rightarrow> extract_values rest metric_key values
              | Some v \<Rightarrow>
                  if is_number v
                  then (case py_float v of
                          Inl e \<Rightarrow> Inl e
                        | Inr x \<Rightarrow> extract_values rest metric_key (values @ [x]))
                  else extract_values rest metric_key values)
         | _ \<Rightarrow> extract_values rest metric_key values)"

text \<open>
  The result dict is either the analysis with its five keys or a dict with the single key
  \<^verbatim>\<open>error\<close>: \<open>NoValidData\<close> is \<^verbatim>\<open>{'error': 'No valid data points'}\<close>, and \<open>Failed e\<close> is
  \<^verbatim>\<open>{'error': str(e)}\<close> of the \<^verbatim>\<open>except\<close> clause.
\<close>

record analysis =
  data_points :: nat
  statistics :: "(string \<times> real) list"
  trend :: string
  anomalies_count :: nat
  moving_avg_5 :: "real list"

datatype analysis_result = Analysis analysis | NoValidData | Failed py_error

text \<open>
  The dict literal evaluates its entries in order, with the default arguments
  \<^verbatim>\<open>threshold=0.1\<close> and \<^verbatim>\<open>std_threshold=2.0\<close>; the first exception leaves the \<^verbatim>\<open>try\<close>.
\<close>

definition analyze_metric_history :: "py_dict list \<Rightarrow> string \<Rightarrow> analysis_result" where
  "analyze_metric_history metric_data metric_key =
     (case
        py_bind (extract_values metric_data metric_key []) (\<lambda>values.
        if values = [] then Inr NoValidData
        else
          py_bind (calculate_percentiles values) (\<lambda>stats.
          let tr = detect_trend values (1 / 10);
              cnt = length (detect_anomalies values 2)
          in py_bind
               (if length values \<ge> 5
                then py_bind (calculate_moving_average values 5)
                       (\<lambda>ma. Inr (py_slice ma (Some (- 5)) None))
                else Inr values) (\<lambda>avg.
             Inr (Analysis \<lparr>data_points = length values, statistics = stats, trend = tr,
                             anomalies_count = cnt, moving_avg_5 = avg\<rparr>))))
      of
        Inl e \<Rightarrow> Failed e
      | Inr result \<Rightarrow> result)"

section \<open>Metrics store\<close>

subsection \<open>Naive datetimes: \<^verbatim>\<open>isoformat\<close> and subtraction of days\<close>

text \<open>
  \<^verbatim>\<open>datetime.utcnow()\<close> returns a naive datetime; the clock reading is an argument
  \<open>now\<close> of every operation that reads the clock. \<^verbatim>\<open>isoformat()\<close> prints
  \<^verbatim>\<open>%04d-%02d-%02dT%02d:%02d:%02d\<close> and, when the microsecond is not zero,
  \<^verbatim>\<open>.%06d\<close> after it.
\<close>

record datetime =
  year :: nat
  month :: nat
  day :: nat
  hour :: nat
  minute :: nat
  second :: nat
  microsecond :: nat

fun decimal :: "nat \<Rightarrow> string" where
  "decimal n =
     (if n < 10 then [''0123456789'' ! n]
      else decimal (n div 10) @ [''0123456789'' ! (n mod 10)])"

declare decimal.simps [simp del]

definition zero_pad :: "nat \<Rightarrow> nat \<Rightarrow> string" where
  "zero_pad w n = replicate (w - length (decimal n)) (CHR ''0'') @ decimal n"

definition isoformat :: "datetime \<Rightarrow> string" where
  "isoformat dt =
     zero_pad 4 (year dt) @ ''-'' @ zero_pad 2 (month dt) @ ''-'' @ zero_pad 2 (day dt) @ ''T'' @
     zero_pad 2 (hour dt) @ '':'' @ zero_pad 2 (minute dt) @ '':'' @ zero_pad 2 (second dt) @
     (if microsecond dt \<noteq> 0 then ''.'' @ zero_pad 6 (microsecond dt) else [])"

text \<open>
  The proleptic Gregorian ordinal of the standard library (\<^verbatim>\<open>_ymd2ord\<close>,
  \<^verbatim>\<open>_ord2ymd\<close>): 1 January of year 1 is day 1.
\<close>

definition is_leap :: "int \<Rightarrow> bool" where
  "is_leap y = (y mod 4 = 0 \<and> (y mod 100 \<noteq> 0 \<or> y mod 400 = 0))"

definition days_before_year :: "int \<Rightarrow> int" where
  "days_before_year yr = (let y = yr - 1 in y * 365 + y div 4 - y div 100 + y div 400)"

definition DAYS_IN_MONTH :: "int list" where
  "DAYS_IN_MONTH = [- 1, 31, 28, 31, 30, 31, 30, 31, 31, 30, 31, 30, 31]"

definition DAYS_BEFORE_MONTH :: "int list" where
  "DAYS_BEFORE_MONTH = [- 1, 0, 31, 59, 90, 120, 151, 181, 212, 243, 273, 304, 334]"

definition days_before_month :: "int \<Rightarrow> nat \<Rightarrow> int" where
  "days_before_month y m = DAYS_BEFORE_MONTH ! m + (if m > 2 \<and> is_leap y then 1 else 0)"

definition ymd2ord :: "nat \<Rightarrow> nat \<Rightarrow> nat \<Rightarrow> int" where
  "ymd2ord y m d = days_before_year (int y) + days_before_month (int y) m + int d"

definition ord2ymd :: "int \<Rightarrow> nat \<times> nat \<times> nat" where
  "ord2ymd ordinal =
     (let n = ordinal - 1;
          n400 = n div 146097; n = n mod 146097;
          y = n400 * 400 + 1;
          n100 = n div 36524; n = n mod 36524;
          n4 = n div 1461; n = n mod 1461;
          n1 = n div 365; n = n mod 365;
          y = y + n100 * 100 + n4 * 4 + n1
      in if n1 = 4 \<or> n100 = 4 then (nat (y - 1), 12, 31)
         else
           let leapyear = (n1 = 3 \<and> (n4 \<noteq> 24 \<or> n100 = 3));
               m = nat ((n + 50) div 32);
               preceding = DAYS_BEFORE_MONTH ! m + (if m > 2 \<and> leapyear then 1 else 0);
               (m, preceding) =
                 (if preceding > n
                  then (m - 1,
                        preceding - (DAYS_IN_MONTH ! (m - 1) + (if m - 1 = 2 \<and> leapyear then 1 else 0)))
                  else (m, preceding))
           in (nat y, m, nat (n - preceding + 1)))"

text \<open>
  \<^verbatim>\<open>dt - timedelta(days=d)\<close>: the \<^verbatim>\<open>timedelta\<close> constructor refuses more than
  999999999 days, and the difference must be a date of the years 1 to 9999 (ordinals 1 to
  3652059); the time of day is unchanged.
\<close>

definition sub_days :: "datetime \<Rightarrow> int \<Rightarrow> py_error + datetime" where
  "sub_days dt days =
     (if \<bar>days\<bar> > 999999999 then Inl OverflowError
      else
        let ordinal = ymd2ord (year dt) (month dt) (day dt) - days
        in if 0 < ordinal \<and> ordinal \<le> 3652059
           then (case ord2ymd ordinal of (y, m, d) \<Rightarrow> Inr (dt\<lparr>year := y, month := m, day := d\<rparr>))
           else Inl OverflowError)"

subsection \<open>The table \<^verbatim>\<open>metrics\<close>\<close>

text \<open>
  A row holds the seven columns the queries select; \<^verbatim>\<open>created_at\<close> is written by the
  engine and never read. \<^verbatim>\<open>timestamp\<close> holds the ISO string, compared bytewise as
  SQLite compares text; \<^verbatim>\<open>metric_data\<close> holds the JSON value that \<^verbatim>\<open>json.dumps\<close> wrote
  and \<^verbatim>\<open>json.loads\<close> reads back. The store is the list of rows in insertion order
  together with \<open>seq\<close>, the entry of the table in \<^verbatim>\<open>sqlite_sequence\<close>: the largest row
  id \<^verbatim>\<open>AUTOINCREMENT\<close> has ever assigned.
\<close>

record row =
  row_id :: int
  timestamp :: string
  hostname :: string
  metric_type :: string
  metric_data :: json
  status :: string
  data_source :: string

record store =
  db_path :: string
  rows :: "row list"
  seq :: int

text \<open>A database file that did not exist: \<^verbatim>\<open>_init_database\<close> creates the empty table.\<close>

definition new_database :: "string \<Rightarrow> store" where
  "new_database path = \<lparr>db_path = path, rows = [], seq = 0\<rparr>"

subsection \<open>\<^verbatim>\<open>insert_metrics\<close>\<close>

text \<open>
  \<^verbatim>\<open>INTEGER PRIMARY KEY AUTOINCREMENT\<close>: the new id is one more than the largest id that
  ever existed in the table, and the insert fails once that is the largest 64-bit integer.
  The call returns \<^verbatim>\<open>cursor.lastrowid\<close>.
\<close>

definition largest_rowid :: "store \<Rightarrow> int" where
  "largest_rowid db = fold max (map row_id (rows db)) (seq db)"

definition insert_metrics ::
  "store \<Rightarrow> datetime \<Rightarrow> string \<Rightarrow> string \<Rightarrow> json \<Rightarrow> string \<Rightarrow> string \<Rightarrow> py_error + int \<times> store" where
  "insert_metrics db now host mtype mdata stat source =
     (if largest_rowid db \<ge> 9223372036854775807 then Inl DatabaseError
      else
        let new_id = largest_rowid db + 1;
            r = \<lparr>row_id = new_id, timestamp = isoformat now, hostname = host,
                 metric_type = mtype, metric_data = mdata, status = stat,
                 data_source = source\<rparr>
        in Inr (new_id, db\<lparr>rows := rows db @ [r], seq := new_id\<rparr>))"

subsection \<open>\<^verbatim>\<open>get_metrics_range\<close>\<close>

text \<open>
  \<^verbatim>\<open>if metric_type:\<close> is false for \<^verbatim>\<open>None\<close> and for the empty string.
  \<^verbatim>\<open>ORDER BY timestamp ASC\<close> is a sort on the timestamp; the order of rows with equal
  timestamps is not fixed by SQL, and the model keeps them in insertion order.
\<close>

definition truthy :: "string option \<Rightarrow> bool" where
  "truthy s = (case s of None \<Rightarrow> False | Some t \<Rightarrow> t \<noteq> [])"

definition get_metrics_range ::
  "store \<Rightarrow> datetime \<Rightarrow> datetime \<Rightarrow> string option \<Rightarrow> row list" where
  "get_metrics_range db start_time end_time mtype =
     (if truthy mtype
      then sort_key timestamp
             (filter (\<lambda>r. isoformat start_time \<le> timestamp r \<and> timestamp r \<le> isoformat end_time
                          \<and> metric_type r = the mtype) (rows db))
      else sort_key timestamp
             (filter (\<lambda>r. isoformat start_time \<le> timestamp r \<and> timestamp r \<le> isoformat end_time)
                (rows db)))"

subsection \<open>\<^verbatim>\<open>cleanup_old_records\<close>\<close>

text \<open>
  The cutoff is computed first and may raise; the \<^verbatim>\<open>DELETE\<close> removes the rows with
  \<^verbatim>\<open>timestamp < cutoff\<close>, and \<^verbatim>\<open>cursor.rowcount\<close> is their number.
\<close>

definition cleanup_old_records :: "store \<Rightarrow> datetime \<Rightarrow> int \<Rightarrow> py_error + nat \<times> store" where
  "cleanup_old_records db now retention_days =
     (case sub_days now retention_days of
        Inl e \<Rightarrow> Inl e
      | Inr cutoff_date \<Rightarrow>
          let deleted_count = length (filter (\<lambda>r. timestamp r < isoformat cutoff_date) (rows db))
          in Inr (deleted_count,
                  db\<lparr>rows := filter (\<lambda>r. \<not> timestamp r < isoformat cutoff_date) (rows db)\<rparr>))"

subsection \<open>\<^verbatim>\<open>get_database_stats\<close>\<close>

record database_stats =
  total_records :: nat
  by_type :: "string \<Rightarrow> nat option"
  oldest_record :: "string option"
  newest_record :: "string option"
  stats_db_path :: string

definition get_database_stats :: "store \<Rightarrow> database_stats" where
  "get_database_stats db =
     \<lparr>total_records = length (rows db),
      by_type = (\<lambda>t. let c = length (filter (\<lambda>r. metric_type r = t) (rows db))
                     in if c = 0 then None else Some c),
      oldest_record = (case map timestamp (rows db) of [] \<Rightarrow> None | t # ts \<Rightarrow> Some (fold min ts t)),
      newest_record = (case map timestamp (rows db) of [] \<Rightarrow> None | t # ts \<Rightarrow> Some (fold max ts t)),
      stats_db_path = db_path db\<rparr>"

subsection \<open>Sequences of operations on a store\<close>

text \<open>
  An insert or a cleanup with its arguments and the clock reading at the call; what the
  call returned or raised. An operation that raises leaves the store as it was.
\<close>

datatype store_op =
    Insert datetime string string json string string
  | Cleanup datetime int

datatype outcome = Inserted int | Deleted nat | Raised py_error

fun apply_op :: "store \<Rightarrow> store_op \<Rightarrow> outcome \<times> store" where
  "apply_op db (Insert now host mtype mdata stat source) =
     (case insert_metrics db now host mtype mdata stat source of
        Inl e \<Rightarrow> (Raised e, db)
      | Inr (i, db') \<Rightarrow> (Inserted i, db'))"
| "apply_op db (Cleanup now retention_days) =
     (case cleanup_old_records db now retention_days of
        Inl e \<Rightarrow> (Raised e, db)
      | Inr (n, db') \<Rightarrow> (Deleted n, db'))"

fun run_ops :: "store \<Rightarrow> store_op list \<Rightarrow> outcome list \<times> store" where
  "run_ops db [] = ([], db)"
| "run_ops db (op # ops) =
     (case apply_op db op of
        (out, db') \<Rightarrow> (case run_ops db' ops of (outs, db'') \<Rightarrow> (out # outs, db'')))"

fun inserted_ids :: "outcome list \<Rightarrow> int list" where
  "inserted_ids [] = []"
| "inserted_ids (Inserted i # outs) = i # inserted_ids outs"
| "inserted_ids (_ # outs) = inserted_ids outs"

fun deleted_total :: "outcome list \<Rightarrow> nat" where
  "deleted_total [] = 0"
| "deleted_total (Deleted n # outs) = n + deleted_total outs"
| "deleted_total (_ # outs) = deleted_total outs"

subsection \<open>A small store for the worked examples\<close>

definition mk_datetime :: "nat \<Rightarrow> nat \<Rightarrow> nat \<Rightarrow> nat \<Rightarrow> nat \<Rightarrow> nat \<Rightarrow> nat \<Rightarrow> datetime" where
  "mk_datetime y m d h mi s us =
     \<lparr>year = y, month = m, day = d, hour = h, minute = mi, second = s, microsecond = us\<rparr>"

definition example_row :: "int \<Rightarrow> string \<Rightarrow> string \<Rightarrow> row" where
  "example_row i ts mtype =
     \<lparr>row_id = i, timestamp = ts, hostname = ''web1'', metric_type = mtype,
      metric_data = JNull, status = ''OK'', data_source = ''python''\<rparr>"

definition example_store :: store where
  "example_store =
     \<lparr>db_path = ''metrics.db'',
      rows = [example_row 1 ''2024-03-01T07:05:09'' ''cpu'',
              example_row 2 ''2024-03-01T07:05:09.500000'' ''memory'',
              example_row 3 ''2024-03-02T00:00:00'' ''cpu'',
              example_row 4 ''2024-03-02T00:00:00.000001'' ''cpu''],
      seq = 4\<rparr>"

definition example_ops :: "store_op list" where
  "example_ops =
     [Insert (mk_datetime 2024 3 1 7 5 9 0) ''web1'' ''cpu'' JNull ''OK'' ''python'',
      Insert (mk_datetime 2024 3 1 7 5 11 250) ''web1'' ''memory'' JNull ''OK'' ''python'',
      Cleanup (mk_datetime 2024 3 1 7 5 12 0) (- 1),
      Insert (mk_datetime 2024 3 1 7 5 13 0) ''web1'' ''cpu'' JNull ''OK'' ''python'',
      Cleanup (mk_datetime 2024 3 1 7 5 14 0) 7,
      Cleanup (mk_datetime 2024 3 1 7 5 15 0) 1000000]"

section \<open>The specification's formulas\<close>

text \<open>
  The least-squares line of the values against their indices \<open>0..n-1\<close>, written as the
  specification writes it: with the mean of the indices, the mean of the values, the
  regression denominator \<open>\<Sum>(i - mean_i)\<^sup>2\<close>, the slope, and the change rate
  \<open>|slope / mean(values)|\<close>, which is 0 when the mean of the values is 0.
  \<open>squared_error vs a b\<close> is the sum of squared residuals of the line \<open>a * i + b\<close>.
\<close>

definition index_mean :: "nat \<Rightarrow> real" where
  "index_mean n = (\<Sum>i<n. real i) / real n"

definition value_mean :: "real list \<Rightarrow> real" where
  "value_mean vs = (\<Sum>i<length vs. vs ! i) / real (length vs)"

definition regression_numerator :: "real list \<Rightarrow> real" where
  "regression_numerator vs =
     (\<Sum>i<length vs. (real i - index_mean (length vs)) * (vs ! i - value_mean vs))"

definition regression_denominator :: "real list \<Rightarrow> real" where
  "regression_denominator vs = (\<Sum>i<length vs. (real i - index_mean (length vs))\<^sup>2)"

definition ls_slope :: "real list \<Rightarrow> real" where
  "ls_slope vs = regression_numerator vs / regression_denominator vs"


definition change_rate :: "real list \<Rightarrow> real" where
  "change_rate vs = (if value_mean vs = 0 then 0 else \<bar>ls_slope vs / value_mean vs\<bar>)"


text \<open>
  The sample standard deviation and the z-score of the value at index \<open>i\<close>.
\<close>

definition sample_stdev :: "real list \<Rightarrow> real" where
  "sample_stdev vs =
     sqrt ((\<Sum>i<length vs. (vs ! i - value_mean vs)\<^sup>2) / (real (length vs) - 1))"

definition z_score :: "real list \<Rightarrow> nat \<Rightarrow> real" where
  "z_score vs i = \<bar>vs ! i - value_mean vs\<bar> / sample_stdev vs"

text \<open>
  The interpolated percentile of the specification over the sorted values, the median,
  and the block of statistics that \<^verbatim>\<open>calculate_percentiles\<close> is to return.
\<close>

definition interpolated_percentile :: "real list \<Rightarrow> nat \<Rightarrow> real" where
  "interpolated_percentile value p =
     (let n = length value;
          index = real (n - 1) * real p / 100;
          lower = nat \<lfloor>index\<rfloor>;
          weight = index - real lower
      in if lower + 1 < n
         then value ! lower * (1 - weight) + value ! (lower + 1) * weight
         else value ! lower)"

definition median_of :: "real list \<Rightarrow> real" where
  "median_of vs =
     (let s = sort vs; n = length s
      in if odd n then s ! (n div 2) else (s ! (n div 2 - 1) + s ! (n div 2)) / 2)"

definition percentile_block :: "real list \<Rightarrow> (string \<times> real) list" where
  "percentile_block vs =
     [(''min'', Min (set vs)), (''max'', Max (set vs)), (''mean'', value_mean vs),
      (''median'', median_of vs),
      (''p25'', interpolated_percentile (sort vs) 25),
      (''p75'', interpolated_percentile (sort vs) 75),
      (''p90'', interpolated_percentile (sort vs) 90),
      (''p95'', interpolated_percentile (sort vs) 95),
      (''p99'', interpolated_percentile (sort vs) 99)]"


text \<open>
  The value of the payload of a record at a key, when the record has a payload dict with
  that key; the number a JSON value stands for, when it is an integer, a float or a
  boolean; and the numeric values of a list of records at a key, in record order. The
  records are convertible when no integer among these values is beyond the float range.
\<close>

definition payload_lookup :: "py_dict \<Rightarrow> string \<Rightarrow> json option" where
  "payload_lookup r k = (case r ''metric_data'' of Some (JDict m) \<Rightarrow> m k | _ \<Rightarrow> None)"

definition numeric_value :: "json \<Rightarrow> real option" where
  "numeric_value v =
     (case v of
        JInt i \<Rightarrow> Some (of_int i)
      | JFloat x \<Rightarrow> Some x
      | JBool b \<Rightarrow> Some (if b then 1 else 0)
      | _ \<Rightarrow> None)"

definition numeric_values :: "py_dict list \<Rightarrow> string \<Rightarrow> real list" where
  "numeric_values records k =
     List.map_filter (\<lambda>r. case payload_lookup r k of None \<Rightarrow> None | Some v \<Rightarrow> numeric_value v)
       records"

definition convertible :: "py_dict list \<Rightarrow> string \<Rightarrow> bool" where
  "convertible records k =
     list_all (\<lambda>r. case payload_lookup r k of Some (JInt i) \<Rightarrow> \<bar>i\<bar> < float_limit | _ \<Rightarrow> True)
       records"

text \<open>The last \<open>k\<close> elements of a list, or the whole list when it is shorter.\<close>

definition last_n :: "nat \<Rightarrow> 'a list \<Rightarrow> 'a list" where
  "last_n k xs = drop (length xs - k) xs"

text \<open>
  The analysis the specification asks for on a non-empty list of values: the count, the
  percentile block, the trend, the number of anomalies, and the last five moving averages
  of window 5, or the values themselves when there are fewer than five.
\<close>

definition analysis_of :: "real list \<Rightarrow> analysis" where
  "analysis_of vs =
     \<lparr>data_points = length vs,
      statistics = percentile_block vs,
      trend = detect_trend vs (1 / 10),
      anomalies_count = length (detect_anomalies vs 2),
      moving_avg_5 =
        (if 5 \<le> length vs then last_n 5 (map (window_mean vs 5) [0..<length vs - 4]) else vs)\<rparr>"

text \<open>
  Chronological order of naive datetimes is the lexicographic order of their fields, as
  the standard library compares them. \<open>fixed_digits w n\<close> is the numeral of \<open>n\<close> in
  exactly \<open>w\<close> digits; \<open>datetime_fields_ok\<close> bounds the fields as the constructor of
  \<^verbatim>\<open>datetime\<close> does (with 31 days for every month).
\<close>

fun fixed_digits :: "nat \<Rightarrow> nat \<Rightarrow> string" where
  "fixed_digits 0 n = []"
| "fixed_digits (Suc w) n = fixed_digits w (n div 10) @ [''0123456789'' ! (n mod 10)]"

definition datetime_fields_ok :: "datetime \<Rightarrow> bool" where
  "datetime_fields_ok dt =
     (1 \<le> year dt \<and> year dt \<le> 9999 \<and> 1 \<le> month dt \<and> month dt \<le> 12 \<and>
      1 \<le> day dt \<and> day dt \<le> 31 \<and> hour dt < 24 \<and> minute dt < 60 \<and> second dt < 60 \<and>
      microsecond dt < 1000000)"

definition datetime_less :: "datetime \<Rightarrow> datetime \<Rightarrow> bool" where
  "datetime_less a b =
     (year a < year b \<or> year a = year b \<and>
     (month a < month b \<or> month a = month b \<and>
     (day a < day b \<or> day a = day b \<and>
     (hour a < hour b \<or> hour a = hour b \<and>
     (minute a < minute b \<or> minute a = minute b \<and>
     (second a < second b \<or> second a = second b \<and>
      microsecond a < microsecond b))))))"

text \<open>
  Store queries: a row is in range when its timestamp lies between the ISO strings of the
  bounds, both included; a type filter selects the rows of that type, and no filter or the
  empty string selects every row. \<open>seq_covers\<close> says that no row id exceeds the sequence
  counter.
\<close>

definition in_range :: "datetime \<Rightarrow> datetime \<Rightarrow> row \<Rightarrow> bool" where
  "in_range start_time end_time r =
     (isoformat start_time \<le> timestamp r \<and> timestamp r \<le> isoformat end_time)"

definition type_selected :: "string option \<Rightarrow> row \<Rightarrow> bool" where
  "type_selected mtype r =
     (case mtype of None \<Rightarrow> True | Some t \<Rightarrow> if t = [] then True else metric_type r = t)"

definition seq_covers :: "store \<Rightarrow> bool" where
  "seq_covers db = list_all (\<lambda>r. row_id r \<le> seq db) (rows db)"

section \<open>Properties of the analytics engine\<close>

lemma slice_index_nat [simp]: "slice_index n (int k) = min n k"
  by (simp add: slice_index_def)

lemma py_slice_window:
  assumes "0 < w" "i + w \<le> length xs"
  shows "py_slice xs (Some (int i)) (Some (int i + int w)) = take w (drop i xs)"
proof -
  have "slice_index (length xs) (int i + int w) = i + w"
    using assms by (simp add: slice_index_def)
  then show ?thesis
    using assms by (simp add: py_slice_def Let_def)
qed

lemma moving_average_loop_positive:
  assumes "0 < w" "\<forall>i \<in> set idx. i + w \<le> length xs"
  shows "moving_average_loop xs (int w) idx acc = Inr (acc @ map (window_mean xs w) idx)"
  using assms(2)
proof (induction idx arbitrary: acc)
  case Nil
  then show ?case by simp
next
  case (Cons i rest)
  have "i + w \<le> length xs" using Cons.prems by simp
  then have win: "py_slice xs (Some (int i)) (Some (int i + int w)) = take w (drop i xs)"
    using assms(1) by (rule py_slice_window[rotated])
  have rest: "\<forall>j \<in> set rest. j + w \<le> length xs" using Cons.prems by simp
  show ?case
    using assms(1) by (simp add: win py_truediv_def Cons.IH[OF rest] window_mean_def)
qed

text \<open>
  Claim C8, as stated for every window: a window larger than the list returns the list,
  and any other window returns the means of all contiguous sub-windows. The second half
  fails for the window 0 (and below): the first division raises ZeroDivisionError.
\<close>

theorem moving_average_zero_window_counterexample:
  "calculate_moving_average [1, 2, 3] 0 = Inl ZeroDivisionError"
  by (simp add: calculate_moving_average_def py_range_def py_truediv_def py_slice_def
      upt_conv_Cons)

text \<open>
  Claim C8, amended to windows of at least one element: for \<open>w > n\<close> the input comes back
  unchanged; for \<open>1 \<le> w \<le> n\<close> the result is the list of means of the windows starting
  at \<open>0, \<dots>, n - w\<close>, in that order, and has exactly \<open>n - w + 1\<close> elements.
\<close>

theorem moving_average_spec:
  "(int (length values) < w \<longrightarrow> calculate_moving_average values w = Inr values) \<and>
   (1 \<le> w \<and> w \<le> int (length values) \<longrightarrow>
      calculate_moving_average values w =
        Inr (map (window_mean values (nat w)) [0..<length values - nat w + 1]) \<and>
      (\<exists>out. calculate_moving_average values w = Inr out \<and>
             length out = length values - nat w + 1))"
proof -
  have "calculate_moving_average values w =
          Inr (map (window_mean values (nat w)) [0..<length values - nat w + 1])"
    if le: "w \<le> int (length values)" and pos: "1 \<le> w"
  proof -
    define k where "k = nat w"
    have w: "w = int k" and k: "0 < k" "k \<le> length values"
      using le pos by (auto simp: k_def)
    have r: "py_range (int (length values) - w + 1) = [0..<length values - k + 1]"
      using k by (simp add: py_range_def w nat_diff_distrib' nat_add_distrib)
    have "\<forall>i \<in> set [0..<length values - k + 1]. i + k \<le> length values"
      using k by auto
    from moving_average_loop_positive[OF k(1) this, of "[]"] show ?thesis
      unfolding calculate_moving_average_def r unfolding w using k(2) by simp
  qed
  then show ?thesis
    by (auto simp: calculate_moving_average_def)
qed

theorem moving_average_spec_witness:
  "int (length [1, 2 :: real]) < 5 \<and> calculate_moving_average [1, 2] 5 = Inr [1, 2] \<and>
   (1::int) \<le> 2 \<and> 2 \<le> int (length [1, 2, 3, 6 :: real]) \<and>
   calculate_moving_average [1, 2, 3, 6] 2 = Inr [3 / 2, 5 / 2, 9 / 2]"
  using moving_average_spec[of "[1, 2]" 5] moving_average_spec[of "[1, 2, 3, 6]" 2]
  by (simp add: window_mean_def upt_conv_Cons)


lemma sum_list_nth: "sum_list (vs :: real list) = (\<Sum>i<length vs. vs ! i)"
  by (simp add: sum_list_sum_nth atLeast0LessThan)















lemma statistics_mean_eq: "vs \<noteq> [] \<Longrightarrow> statistics_mean vs = Inr (value_mean vs)"
  by (simp add: statistics_mean_def value_mean_def sum_list_nth[of vs])




lemma py_min_eq: "vs \<noteq> [] \<Longrightarrow> py_min vs = Inr (Min (set vs))"
  by (cases vs) (simp_all add: py_min_def Min.set_eq_fold[symmetric])

lemma py_max_eq: "vs \<noteq> [] \<Longrightarrow> py_max vs = Inr (Max (set vs))"
  by (cases vs) (simp_all add: py_max_def Max.set_eq_fold[symmetric])

lemma sort_eq_Nil [simp]: "sort xs = [] \<longleftrightarrow> xs = []"
  by (metis length_sort length_0_conv)

lemma statistics_median_eq: "vs \<noteq> [] \<Longrightarrow> statistics_median vs = Inr (median_of vs)"
  by (simp add: statistics_median_def median_of_def Let_def odd_iff_mod_2_eq_one)

lemma percentile_eq:
  assumes "xs \<noteq> []" "q \<le> 100"
  shows "percentile xs (int q) = Inr (interpolated_percentile xs q)"
proof -
  define n where "n = length xs"
  define idx where "idx = real (n - 1) * real q / 100"
  define L where "L = \<lfloor>idx\<rfloor>"
  have n: "0 < n" using assms(1) by (simp add: n_def)
  have idx: "of_int ((int n - 1) * int q) / 100 = idx"
    using n by (simp add: idx_def of_nat_diff)
  have idx0: "0 \<le> idx" by (simp add: idx_def)
  have "real (n - 1) * real q \<le> real (n - 1) * 100"
    using assms(2) by (intro mult_left_mono) simp_all
  then have "idx \<le> real (n - 1)"
    by (simp add: idx_def)
  then have "L \<le> int (n - 1)" unfolding L_def by (simp add: floor_le_iff)
  then have Lub: "L < int n" using n by simp
  have L0: "0 \<le> L" using idx0 by (simp add: L_def)
  have up: "int n \<le> L + 1 \<longleftrightarrow> \<not> nat L + 1 < n" using L0 by auto
  have g: "py_getitem xs L = Inr (xs ! nat L)"
    using L0 Lub by (simp add: py_getitem_def n_def)
  have g1: "py_getitem xs (L + 1) = Inr (xs ! (nat L + 1))" if "nat L + 1 < n"
    using L0 that by (auto simp: py_getitem_def n_def nat_add_distrib Let_def)
  have w: "idx - of_int L = idx - real (nat L)" using L0 by simp
  show ?thesis
    using assms(1) idx0
    unfolding percentile_def interpolated_percentile_def Let_def n_def[symmetric] idx
      idx_def[symmetric] py_int_def
    apply (simp only: if_False if_True L_def[symmetric] up g py_bind_def sum.case w)
    apply (simp add: g1)
    done
qed

lemmas percentile_const =
  percentile_eq[where q = 25, simplified] percentile_eq[where q = 75, simplified]
  percentile_eq[where q = 90, simplified] percentile_eq[where q = 95, simplified]
  percentile_eq[where q = 99, simplified]

lemma calculate_percentiles_eq:
  "calculate_percentiles vs = (if vs = [] then Inr [] else Inr (percentile_block vs))"
  by (simp add: calculate_percentiles_def py_bind_def py_min_eq py_max_eq statistics_mean_eq
      statistics_median_eq percentile_const percentile_block_def Let_def)

lemma median_examples:
  "median_of [1, 2, 3, 4] = 5 / 2" "median_of [1, 2, 3, 4, 5] = 3"
  by (simp_all add: median_of_def)

lemma median_key: "vs \<noteq> [] \<Longrightarrow>
   (\<exists>d. calculate_percentiles vs = Inr d \<and> map_of d ''median'' = Some (median_of vs))"
  by (simp add: calculate_percentiles_eq percentile_block_def)





text \<open>
  Claim C6: \<^verbatim>\<open>calculate_percentiles\<close> returns the empty dict for the empty list and
  otherwise the minimum, maximum, mean, median and the percentiles 25, 75, 90, 95 and 99,
  each interpolated linearly between the sorted values at \<open>floor(index)\<close> and the next
  position, \<open>index = (n - 1) * p / 100\<close>, and equal to the value at \<open>floor(index)\<close>
  when there is no next position. The median of \<open>[1,2,3,4]\<close> is 2.5, that of
  \<open>[1,2,3,4,5]\<close> is 3.
\<close>

theorem calculate_percentiles_spec:
  "calculate_percentiles vs = (if vs = [] then Inr [] else Inr (percentile_block vs)) \<and>
   (\<exists>d. calculate_percentiles [1, 2, 3, 4] = Inr d \<and> map_of d ''median'' = Some (5 / 2)) \<and>
   (\<exists>d. calculate_percentiles [1, 2, 3, 4, 5] = Inr d \<and> map_of d ''median'' = Some 3)"
  using median_key[of "[1, 2, 3, 4]"] median_key[of "[1, 2, 3, 4, 5]"]
  by (simp add: calculate_percentiles_eq median_examples)

theorem calculate_percentiles_spec_witness:
  "calculate_percentiles [4, 1, 3, 2] =
     Inr [(''min'', 1), (''max'', 4), (''mean'', 5 / 2), (''median'', 5 / 2),
          (''p25'', 7 / 4), (''p75'', 13 / 4), (''p90'', 37 / 10), (''p95'', 77 / 20),
          (''p99'', 397 / 100)]"
proof -
  have vm: "value_mean [4, 1, 3, 2] = 5 / 2"
    by (simp add: value_mean_def lessThan_Suc eval_nat_numeral)
  have md: "median_of [4, 1, 3, 2] = 5 / 2"
    by (simp add: median_of_def)
  have so: "sort [4, 1, 3, 2 :: real] = [1, 2, 3, 4]"
    by simp
  have ps: "interpolated_percentile [1, 2, 3, 4] 25 = 7 / 4"
    "interpolated_percentile [1, 2, 3, 4] 75 = 13 / 4"
    "interpolated_percentile [1, 2, 3, 4] 90 = 37 / 10"
    "interpolated_percentile [1, 2, 3, 4] 95 = 77 / 20"
    "interpolated_percentile [1, 2, 3, 4] 99 = 397 / 100"
    by (simp_all add: interpolated_percentile_def)
  from calculate_percentiles_spec[of "[4, 1, 3, 2]"] show ?thesis
    unfolding percentile_block_def vm md so ps by simp
qed









lemma extract_values_eq:
  "extract_values rs k acc =
     (if convertible rs k then Inr (acc @ numeric_values rs k) else Inl OverflowError)"
proof (induction rs arbitrary: acc)
  case Nil
  then show ?case by (simp add: numeric_values_def map_filter_simps convertible_def)
next
  case (Cons r rs)
  show ?case
    by (simp add: Cons.IH numeric_values_def map_filter_simps payload_lookup_def convertible_def
        is_number_def py_float_def numeric_value_def split: option.splits json.splits)
qed

lemma py_slice_last_n:
  assumes "0 < k"
  shows "py_slice xs (Some (- int k)) None = last_n k xs"
proof -
  have "slice_index (length xs) (- int k) = length xs - k"
    using assms by (simp add: slice_index_def nat_diff_distrib')
  then show ?thesis
    by (simp add: py_slice_def last_n_def)
qed

lemma py_slice_last_5: "py_slice xs (Some (- 5)) None = last_n 5 xs"
  using py_slice_last_n[of 5 xs] by simp

lemma moving_average_5:
  assumes "5 \<le> length vs"
  shows "calculate_moving_average vs 5 = Inr (map (window_mean vs 5) [0..<length vs - 4])"
proof -
  have "\<forall>i \<in> set [0..<length vs - 4]. i + 5 \<le> length vs"
    using assms by auto
  from moving_average_loop_positive[of 5 "[0..<length vs - 4]" vs "[]", OF _ this]
  have "moving_average_loop vs 5 [0..<length vs - 4] [] = Inr (map (window_mean vs 5) [0..<length vs - 4])"
    by simp
  moreover have "py_range (int (length vs) - 5 + 1) = [0..<length vs - 4]"
    using assms by (simp add: py_range_def nat_diff_distrib')
  ultimately show ?thesis
    using assms by (simp add: calculate_moving_average_def)
qed

lemma analyze_metric_history_eq:
  "analyze_metric_history records k =
     (if \<not> convertible records k then Failed OverflowError
      else if numeric_values records k = [] then NoValidData
      else Analysis (analysis_of (numeric_values records k)))"
  by (simp add: analyze_metric_history_def extract_values_eq calculate_percentiles_eq
      py_bind_def moving_average_5 analysis_of_def Let_def py_slice_last_5)




text \<open>
  Claim C10: a record whose payload value at the key is a boolean is not skipped. It
  contributes 1.0 for true and 0.0 for false to the extracted values, at its place among
  the values of the records before and after it, and it counts as a data point.
\<close>

theorem boolean_payload_is_numeric:
  "payload_lookup r k = Some (JBool b) \<and>
   extract_values before k [] = Inr xs \<and> extract_values after k [] = Inr ys \<longrightarrow>
     extract_values (before @ r # after) k [] = Inr (xs @ (if b then 1 else 0) # ys) \<and>
     (\<exists>a. analyze_metric_history (before @ r # after) k = Analysis a \<and>
          data_points a = length xs + 1 + length ys)"
proof
  assume h: "payload_lookup r k = Some (JBool b) \<and>
   extract_values before k [] = Inr xs \<and> extract_values after k [] = Inr ys"
  then have b: "payload_lookup r k = Some (JBool b)"
    and cb: "convertible before k" and xs: "xs = numeric_values before k"
    and ca: "convertible after k" and ys: "ys = numeric_values after k"
    by (auto simp: extract_values_eq split: if_splits)
  have c: "convertible (before @ r # after) k"
    using b cb ca by (simp add: convertible_def)
  have v: "numeric_values (before @ r # after) k = xs @ (if b then 1 else 0) # ys"
    using b by (simp add: numeric_values_def map_filter_def numeric_value_def xs ys)
  show "extract_values (before @ r # after) k [] = Inr (xs @ (if b then 1 else 0) # ys) \<and>
     (\<exists>a. analyze_metric_history (before @ r # after) k = Analysis a \<and>
          data_points a = length xs + 1 + length ys)"
    by (simp add: extract_values_eq analyze_metric_history_eq analysis_of_def c v)
qed

theorem boolean_payload_is_numeric_witness:
  "payload_lookup [''metric_data'' \<mapsto> JDict [''online'' \<mapsto> JBool True]] ''online''
     = Some (JBool True) \<and>
   extract_values [[''metric_data'' \<mapsto> JDict [''online'' \<mapsto> JBool False]]] ''online'' []
     = Inr [0] \<and>
   extract_values [] ''online'' [] = Inr [] \<and>
   extract_values
     [[''metric_data'' \<mapsto> JDict [''online'' \<mapsto> JBool False]],
      [''metric_data'' \<mapsto> JDict [''online'' \<mapsto> JBool True]]] ''online'' [] = Inr [0, 1]"
proof -
  have p: "payload_lookup [''metric_data'' \<mapsto> JDict [''online'' \<mapsto> JBool True]] ''online''
             = Some (JBool True)"
    by (simp add: payload_lookup_def)
  have q: "extract_values [[''metric_data'' \<mapsto> JDict [''online'' \<mapsto> JBool False]]] ''online'' []
             = Inr [0]"
    by (simp add: is_number_def py_float_def)
  have n: "extract_values [] ''online'' [] = Inr []"
    by simp
  have "extract_values
     ([[''metric_data'' \<mapsto> JDict [''online'' \<mapsto> JBool False]]] @
      [''metric_data'' \<mapsto> JDict [''online'' \<mapsto> JBool True]] # []) ''online'' []
     = Inr ([0] @ (if True then 1 else 0) # [])"
    by (rule boolean_payload_is_numeric[THEN mp, THEN conjunct1]) (intro conjI p q n)
  then show ?thesis
    using p q n by simp
qed

section \<open>Properties of the metrics store\<close>

lemma digit_char_less:
  assumes "i < 10" "j < 10"
  shows "(''0123456789'' ! i < ''0123456789'' ! j) = (i < j)"
    and "(''0123456789'' ! i = ''0123456789'' ! j) = (i = j)"
proof -
  have i: "i \<in> {0, 1, 2, 3, 4, 5, 6, 7, 8, 9}" using assms(1) by auto
  have j: "j \<in> {0, 1, 2, 3, 4, 5, 6, 7, 8, 9}" using assms(2) by auto
  show "(''0123456789'' ! i < ''0123456789'' ! j) = (i < j)"
    using i j by (auto simp: less_char_def)
  show "(''0123456789'' ! i = ''0123456789'' ! j) = (i = j)"
    using i j by auto
qed


lemma fixed_digits_zero: "fixed_digits w 0 = replicate w (CHR ''0'')"
  by (induction w) (simp_all add: replicate_append_same)

lemma length_fixed_digits [simp]: "length (fixed_digits w n) = w"
  by (induction w arbitrary: n) simp_all

lemma decimal_nonempty: "decimal n \<noteq> []"
  by (subst decimal.simps) simp

lemma zero_pad_fixed:
  "length (decimal n) \<le> w \<Longrightarrow> zero_pad w n = fixed_digits w n"
proof (induction w arbitrary: n)
  case 0
  then show ?case using decimal_nonempty[of n] by simp
next
  case (Suc w)
  show ?case
  proof (cases "n < 10")
    case True
    then have d: "decimal n = [''0123456789'' ! n]" by (subst decimal.simps) simp
    show ?thesis
      using True by (simp add: zero_pad_def d fixed_digits_zero)
  next
    case False
    then have d: "decimal n = decimal (n div 10) @ [''0123456789'' ! (n mod 10)]"
      by (subst decimal.simps) simp
    have l: "length (decimal (n div 10)) \<le> w"
      using Suc.prems by (simp add: d)
    have "zero_pad (Suc w) n = zero_pad w (n div 10) @ [''0123456789'' ! (n mod 10)]"
      using l by (simp add: zero_pad_def d)
    then show ?thesis
      by (simp add: Suc.IH[OF l])
  qed
qed

lemma length_decimal: "0 < w \<Longrightarrow> n < 10 ^ w \<Longrightarrow> length (decimal n) \<le> w"
proof (induction w arbitrary: n)
  case 0
  then show ?case by simp
next
  case (Suc w)
  show ?case
  proof (cases "n < 10")
    case True
    then have "decimal n = [''0123456789'' ! n]" by (subst decimal.simps) simp
    then show ?thesis by simp
  next
    case False
    then have d: "decimal n = decimal (n div 10) @ [''0123456789'' ! (n mod 10)]"
      by (subst decimal.simps) simp
    have w: "0 < w" using False Suc.prems(2) by (cases w) auto
    have "n div 10 < 10 ^ w" using Suc.prems(2) by (simp add: less_mult_imp_div_less mult.commute)
    from Suc.IH[OF w this] show ?thesis by (simp add: d)
  qed
qed

lemma zero_pad_eq: "0 < w \<Longrightarrow> n < 10 ^ w \<Longrightarrow> zero_pad w n = fixed_digits w n"
  by (simp add: zero_pad_fixed length_decimal)

lemma append_less_iff:
  fixes x y :: string
  assumes "length x = length y"
  shows "(x @ u < y @ v) = (x < y \<or> x = y \<and> u < v)"
  using assms by (induction x y rule: list_induct2) auto

lemma lex10:
  fixes qa ra qb rb :: nat
  assumes "ra < 10" "rb < 10"
  shows "(10 * qa + ra < 10 * qb + rb) = (qa < qb \<or> qa = qb \<and> ra < rb)"
  using assms by auto

lemma divmod10_less:
  "(a < (b::nat)) = (a div 10 < b div 10 \<or> a div 10 = b div 10 \<and> a mod 10 < b mod 10)"
  using lex10[of "a mod 10" "b mod 10" "a div 10" "b div 10"] by simp

lemma divmod10_eq: "(a = (b::nat)) = (a div 10 = b div 10 \<and> a mod 10 = b mod 10)"
  by (metis div_mult_mod_eq)

lemma fixed_digits_order:
  "a < 10 ^ w \<Longrightarrow> b < 10 ^ w \<Longrightarrow>
   (fixed_digits w a < fixed_digits w b) = (a < b) \<and>
   (fixed_digits w a = fixed_digits w b) = (a = b)"
proof (induction w arbitrary: a b)
  case 0
  then show ?case by simp
next
  case (Suc w)
  have q: "a div 10 < 10 ^ w" "b div 10 < 10 ^ w"
    using Suc.prems by (simp_all add: less_mult_imp_div_less mult.commute)
  note ih = Suc.IH[OF q]
  have "(fixed_digits (Suc w) a < fixed_digits (Suc w) b) = (a < b)"
    by (simp add: append_less_iff ih digit_char_less divmod10_less[of a b])
  moreover have "(fixed_digits (Suc w) a = fixed_digits (Suc w) b) = (a = b)"
    by (simp add: ih digit_char_less divmod10_eq[of a b])
  ultimately show ?case by simp
qed

lemma zero_pad_order:
  assumes "0 < w" "a < 10 ^ w" "b < 10 ^ w"
  shows "(zero_pad w a < zero_pad w b) = (a < b)"
    and "(zero_pad w a = zero_pad w b) = (a = b)"
    and "length (zero_pad w a) = w"
  using assms fixed_digits_order[of a w b] by (simp_all add: zero_pad_eq)

lemma field_less:
  assumes "0 < w" "x < 10 ^ w" "y < 10 ^ w"
  shows "(zero_pad w x @ c # u < zero_pad w y @ c # v) = (x < y \<or> x = y \<and> u < v)"
    and "(zero_pad w x @ u < zero_pad w y @ v) = (x < y \<or> x = y \<and> u < v)"
proof -
  have l: "length (zero_pad w x) = length (zero_pad w y)"
    using assms by (simp add: zero_pad_order(3))
  show "(zero_pad w x @ c # u < zero_pad w y @ c # v) = (x < y \<or> x = y \<and> u < v)"
    by (simp add: append_less_iff[OF l] zero_pad_order(1,2)[OF assms])
  show "(zero_pad w x @ u < zero_pad w y @ v) = (x < y \<or> x = y \<and> u < v)"
    by (simp add: append_less_iff[OF l] zero_pad_order(1,2)[OF assms])
qed

lemma fraction_less:
  assumes "x < 10 ^ 6" "y < 10 ^ 6"
  shows "((if x \<noteq> 0 then CHR ''.'' # zero_pad 6 x else []) <
          (if y \<noteq> 0 then CHR ''.'' # zero_pad 6 y else [])) = (x < y)"
  using zero_pad_order(1)[of 6 x y] assms by auto

lemma isoformat_less_iff:
  assumes "datetime_fields_ok a" "datetime_fields_ok b"
  shows "(isoformat a < isoformat b) = datetime_less a b"
proof -
  have a: "year a < 10 ^ 4" "month a < 10 ^ 2" "day a < 10 ^ 2" "hour a < 10 ^ 2"
    "minute a < 10 ^ 2" "second a < 10 ^ 2" "microsecond a < 10 ^ 6"
    using assms(1) by (simp_all add: datetime_fields_ok_def)
  have b: "year b < 10 ^ 4" "month b < 10 ^ 2" "day b < 10 ^ 2" "hour b < 10 ^ 2"
    "minute b < 10 ^ 2" "second b < 10 ^ 2" "microsecond b < 10 ^ 6"
    using assms(2) by (simp_all add: datetime_fields_ok_def)
  note f =
    field_less(1)[OF _ a(1) b(1)] field_less(1)[OF _ a(2) b(2)] field_less(1)[OF _ a(3) b(3)]
    field_less(1)[OF _ a(4) b(4)] field_less(1)[OF _ a(5) b(5)] field_less(2)[OF _ a(6) b(6)]
    fraction_less[OF a(7) b(7)]
  show ?thesis
    unfolding isoformat_def datetime_less_def
    by (simp only: append_Cons append_Nil f zero_less_numeral)
qed

lemmas store_eval =
  insert_metrics_def cleanup_old_records_def new_database_def largest_rowid_def isoformat_def
  zero_pad_def decimal.simps sub_days_def ymd2ord_def ord2ymd_def days_before_year_def
  days_before_month_def DAYS_BEFORE_MONTH_def DAYS_IN_MONTH_def is_leap_def Let_def
  mk_datetime_def example_row_def example_store_def example_ops_def

text \<open>
  Claim C1 says that a supplied metric type restricts the result to the records of exactly
  that type. The empty string is a supplied type that the test \<^verbatim>\<open>if metric_type:\<close>
  takes for none: on the store that one insert of a \<open>cpu\<close> record into a new database
  produces, the query for the empty type returns that record.
\<close>

theorem range_query_empty_type_counterexample:
  "insert_metrics (new_database ''metrics.db'') (mk_datetime 2024 3 1 7 5 9 0)
     ''web1'' ''cpu'' JNull ''OK'' ''python''
   = Inr (1, \<lparr>db_path = ''metrics.db'',
              rows = [example_row 1 ''2024-03-01T07:05:09'' ''cpu''], seq = 1\<rparr>) \<and>
   map metric_type
     (get_metrics_range
        \<lparr>db_path = ''metrics.db'', rows = [example_row 1 ''2024-03-01T07:05:09'' ''cpu''], seq = 1\<rparr>
        (mk_datetime 2024 3 1 0 0 0 0) (mk_datetime 2024 3 2 0 0 0 0) (Some []))
   = [''cpu'']"
  by (simp add: store_eval get_metrics_range_def truthy_def)

lemma get_metrics_range_eq:
  "get_metrics_range db s e mtype =
     sort_key timestamp (filter (\<lambda>r. in_range s e r \<and> type_selected mtype r) (rows db))"
  by (cases mtype) (auto simp: get_metrics_range_def truthy_def in_range_def type_selected_def
      intro!: arg_cong[where f = "sort_key timestamp"] filter_cong)

lemma in_range_chronological:
  assumes "datetime_fields_ok s" "datetime_fields_ok e" "datetime_fields_ok t"
    "timestamp r = isoformat t"
  shows "in_range s e r = (\<not> datetime_less t s \<and> \<not> datetime_less e t)"
  using assms isoformat_less_iff[of t s] isoformat_less_iff[of e t]
  by (auto simp: in_range_def not_less[symmetric])

lemma range_example:
  "get_metrics_range example_store (mk_datetime 2024 3 1 7 5 9 0) (mk_datetime 2024 3 2 0 0 0 0)
     (Some ''cpu'')
   = [example_row 1 ''2024-03-01T07:05:09'' ''cpu'', example_row 3 ''2024-03-02T00:00:00'' ''cpu'']"
  "get_metrics_range example_store (mk_datetime 2024 3 1 7 5 9 0) (mk_datetime 2024 3 2 0 0 0 0)
     None
   = [example_row 1 ''2024-03-01T07:05:09'' ''cpu'',
      example_row 2 ''2024-03-01T07:05:09.500000'' ''memory'',
      example_row 3 ''2024-03-02T00:00:00'' ''cpu'']"
  by (simp_all add: store_eval get_metrics_range_def truthy_def)

text \<open>
  Claim C1, amended for the empty type: \<^verbatim>\<open>get_metrics_range\<close> returns exactly the
  stored records (each as often as it is stored) whose timestamp lies between the ISO
  strings of the two bounds, both included, and, when a non-empty metric type is given,
  whose type is equal to it; with no type or the empty string it returns the records of
  every type. The result is in ascending order of timestamp, and it is the empty list when
  the end bound is before the start bound. For a record stamped with the ISO string of a
  datetime \<open>t\<close>, lying between the strings is lying between the bounds in time: \<open>t\<close> is
  neither before the start nor after the end.
\<close>

theorem get_metrics_range_spec:
  "mset (get_metrics_range db s e mtype) =
     mset (filter (\<lambda>r. in_range s e r \<and> type_selected mtype r) (rows db)) \<and>
   sorted (map timestamp (get_metrics_range db s e mtype)) \<and>
   (isoformat e < isoformat s \<longrightarrow> get_metrics_range db s e mtype = []) \<and>
   (datetime_fields_ok s \<and> datetime_fields_ok e \<and> datetime_fields_ok t \<and>
    timestamp r = isoformat t \<longrightarrow>
      in_range s e r = (\<not> datetime_less t s \<and> \<not> datetime_less e t))"
proof -
  have "filter (\<lambda>r. in_range s e r \<and> type_selected mtype r) (rows db) = []"
    if "isoformat e < isoformat s"
    using that by (auto simp: filter_empty_conv in_range_def)
  then show ?thesis
    using in_range_chronological[of s e t r] by (simp add: get_metrics_range_eq)
qed

theorem get_metrics_range_spec_witness:
  "isoformat (mk_datetime 2024 3 1 7 5 9 0) < isoformat (mk_datetime 2024 3 2 0 0 0 0) \<and>
   get_metrics_range example_store (mk_datetime 2024 3 2 0 0 0 0) (mk_datetime 2024 3 1 7 5 9 0)
     (Some ''cpu'') = [] \<and>
   datetime_fields_ok (mk_datetime 2024 3 1 7 5 9 0) \<and>
   datetime_fields_ok (mk_datetime 2024 3 2 0 0 0 0) \<and>
   datetime_fields_ok (mk_datetime 2024 3 1 7 5 9 500000) \<and>
   timestamp (example_row 2 ''2024-03-01T07:05:09.500000'' ''memory'')
     = isoformat (mk_datetime 2024 3 1 7 5 9 500000) \<and>
   in_range (mk_datetime 2024 3 1 7 5 9 0) (mk_datetime 2024 3 2 0 0 0 0)
     (example_row 2 ''2024-03-01T07:05:09.500000'' ''memory'') \<and>
   mset (get_metrics_range example_store (mk_datetime 2024 3 1 7 5 9 0)
           (mk_datetime 2024 3 2 0 0 0 0) (Some ''cpu''))
     = {#example_row 1 ''2024-03-01T07:05:09'' ''cpu'', example_row 3 ''2024-03-02T00:00:00'' ''cpu''#} \<and>
   get_metrics_range example_store (mk_datetime 2024 3 1 7 5 9 0) (mk_datetime 2024 3 2 0 0 0 0)
     (Some ''cpu'')
     = [example_row 1 ''2024-03-01T07:05:09'' ''cpu'', example_row 3 ''2024-03-02T00:00:00'' ''cpu'']"
proof -
  have lt: "isoformat (mk_datetime 2024 3 1 7 5 9 0) < isoformat (mk_datetime 2024 3 2 0 0 0 0)"
    by (simp add: store_eval)
  have ok: "datetime_fields_ok (mk_datetime 2024 3 1 7 5 9 0)"
    "datetime_fields_ok (mk_datetime 2024 3 2 0 0 0 0)"
    "datetime_fields_ok (mk_datetime 2024 3 1 7 5 9 500000)"
    by (simp_all add: datetime_fields_ok_def mk_datetime_def)
  have ts: "timestamp (example_row 2 ''2024-03-01T07:05:09.500000'' ''memory'')
     = isoformat (mk_datetime 2024 3 1 7 5 9 500000)"
    by (simp add: store_eval)
  have empty: "get_metrics_range example_store (mk_datetime 2024 3 2 0 0 0 0)
     (mk_datetime 2024 3 1 7 5 9 0) (Some ''cpu'') = []"
    by (rule get_metrics_range_spec[THEN conjunct2, THEN conjunct2, THEN conjunct1, THEN mp, OF lt])
  have "in_range (mk_datetime 2024 3 1 7 5 9 0) (mk_datetime 2024 3 2 0 0 0 0)
          (example_row 2 ''2024-03-01T07:05:09.500000'' ''memory'')
        = (\<not> datetime_less (mk_datetime 2024 3 1 7 5 9 500000) (mk_datetime 2024 3 1 7 5 9 0) \<and>
           \<not> datetime_less (mk_datetime 2024 3 2 0 0 0 0) (mk_datetime 2024 3 1 7 5 9 500000))"
    by (rule get_metrics_range_spec[THEN conjunct2, THEN conjunct2, THEN conjunct2, THEN mp])
      (intro conjI ok ts)
  then have inr: "in_range (mk_datetime 2024 3 1 7 5 9 0) (mk_datetime 2024 3 2 0 0 0 0)
          (example_row 2 ''2024-03-01T07:05:09.500000'' ''memory'')"
    by (simp add: datetime_less_def mk_datetime_def)
  have ms: "mset (get_metrics_range example_store (mk_datetime 2024 3 1 7 5 9 0)
           (mk_datetime 2024 3 2 0 0 0 0) (Some ''cpu''))
     = {#example_row 1 ''2024-03-01T07:05:09'' ''cpu'', example_row 3 ''2024-03-02T00:00:00'' ''cpu''#}"
    unfolding get_metrics_range_spec[THEN conjunct1]
    by (simp add: in_range_def type_selected_def store_eval)
  show ?thesis
    by (intro conjI lt empty ok ts inr ms range_example(1))
qed

lemma fold_max_covered:
  "list_all (\<lambda>i. i \<le> s) is \<Longrightarrow> fold max is (s::int) = s"
  by (induction "is") (simp_all add: max_absorb2)

lemma largest_rowid_seq: "seq_covers db \<Longrightarrow> largest_rowid db = seq db"
  unfolding largest_rowid_def seq_covers_def
  by (rule fold_max_covered) (simp add: list_all_iff)

lemma insert_metrics_seq:
  assumes "seq_covers db" "insert_metrics db now h t d st src = Inr (i, db')"
  shows "i = seq db + 1" "seq db' = i" "seq_covers db'"
    "rows db' = rows db @ [\<lparr>row_id = i, timestamp = isoformat now, hostname = h,
        metric_type = t, metric_data = d, status = st, data_source = src\<rparr>]"
proof -
  have eq: "i = seq db + 1"
    "db' = db\<lparr>rows := rows db @ [\<lparr>row_id = i, timestamp = isoformat now, hostname = h,
        metric_type = t, metric_data = d, status = st, data_source = src\<rparr>], seq := i\<rparr>"
    using assms by (auto simp: insert_metrics_def largest_rowid_seq Let_def split: if_splits)
  show "i = seq db + 1" by (rule eq(1))
  show "seq db' = i" by (simp add: eq(2))
  show "rows db' = rows db @ [\<lparr>row_id = i, timestamp = isoformat now, hostname = h,
        metric_type = t, metric_data = d, status = st, data_source = src\<rparr>]"
    by (simp add: eq(2))
  have "row_id r \<le> i" if "r \<in> set (rows db)" for r
    using assms(1) that eq(1) by (fastforce simp: seq_covers_def list_all_iff)
  then show "seq_covers db'"
    by (auto simp: seq_covers_def list_all_iff eq(2))
qed

lemma insert_metrics_succeeds:
  assumes "seq_covers db" "seq db < 9223372036854775807"
  shows "\<exists>db'. insert_metrics db now h t d st src = Inr (seq db + 1, db')"
  using assms by (simp add: insert_metrics_def largest_rowid_seq Let_def)

lemma cleanup_seq:
  assumes "seq_covers db" "cleanup_old_records db now k = Inr (n, db')"
  shows "seq db' = seq db" "seq_covers db'"
  using assms
  by (auto simp: cleanup_old_records_def seq_covers_def list_all_iff Let_def split: sum.splits)

lemma cleanup_count:
  assumes "cleanup_old_records db now k = Inr (n, db')"
  shows "n + length (rows db') = length (rows db)"
proof -
  obtain c where c: "sub_days now k = Inr c"
    using assms by (auto simp: cleanup_old_records_def split: sum.splits)
  have "length (filter (\<lambda>r. timestamp r < isoformat c) (rows db)) +
        length (filter (\<lambda>r. \<not> timestamp r < isoformat c) (rows db)) = length (rows db)"
    by (rule sum_length_filter_compl)
  then show ?thesis
    using assms by (auto simp: cleanup_old_records_def c Let_def)
qed

lemma run_ops_ids:
  assumes "seq_covers db" "run_ops db ops = (outs, db')"
  shows "seq_covers db' \<and> seq db \<le> seq db' \<and> sorted_wrt (<) (inserted_ids outs) \<and>
         (\<forall>i \<in> set (inserted_ids outs). seq db < i \<and> i \<le> seq db')"
  using assms
proof (induction ops arbitrary: db outs)
  case Nil
  then show ?case by simp
next
  case (Cons op ops)
  obtain out db1 where a: "apply_op db op = (out, db1)" by (cases "apply_op db op")
  obtain outs1 where r: "run_ops db1 ops = (outs1, db')" and o: "outs = out # outs1"
    using Cons.prems(2) a by (auto split: prod.splits)
  have step: "seq_covers db1 \<and> seq db \<le> seq db1 \<and>
              (\<forall>i. out = Inserted i \<longrightarrow> seq db < i \<and> i = seq db1)"
  proof (cases op)
    case (Insert now h t d st src)
    then show ?thesis
      using a Cons.prems(1) insert_metrics_seq[OF Cons.prems(1), of now h t d st src]
      by (auto split: sum.splits prod.splits)
  next
    case (Cleanup now k)
    then show ?thesis
      using a Cons.prems(1) cleanup_seq[OF Cons.prems(1), of now k]
      by (auto split: sum.splits prod.splits)
  qed
  from Cons.IH[OF _ r] step
  have ih: "seq_covers db'" "seq db1 \<le> seq db'" "sorted_wrt (<) (inserted_ids outs1)"
    "\<forall>i \<in> set (inserted_ids outs1). seq db1 < i \<and> i \<le> seq db'"
    by auto
  show ?case
    using step ih by (cases out) (auto simp: o)
qed

lemma run_ops_count:
  assumes "run_ops db ops = (outs, db')"
  shows "length (rows db') + deleted_total outs = length (rows db) + length (inserted_ids outs)"
  using assms
proof (induction ops arbitrary: db outs)
  case Nil
  then show ?case by simp
next
  case (Cons op ops)
  obtain out db1 where a: "apply_op db op = (out, db1)" by (cases "apply_op db op")
  obtain outs1 where r: "run_ops db1 ops = (outs1, db')" and o: "outs = out # outs1"
    using Cons.prems a by (auto split: prod.splits)
  have step: "length (rows db1) + deleted_total [out] = length (rows db) + length (inserted_ids [out])"
  proof (cases op)
    case (Insert now h t d st src)
    then show ?thesis
      using a by (auto simp: insert_metrics_def Let_def split: sum.splits prod.splits if_splits)
  next
    case (Cleanup now k)
    then show ?thesis
      using a cleanup_count[of db now k] by (auto split: sum.splits prod.splits)
  qed
  show ?case
    using Cons.IH[OF r] step by (cases out) (auto simp: o)
qed

lemma run_example:
  "run_ops (new_database ''metrics.db'') example_ops
   = ([Inserted 1, Inserted 2, Deleted 2, Inserted 3, Deleted 0, Raised OverflowError],
      \<lparr>db_path = ''metrics.db'', rows = [example_row 3 ''2024-03-01T07:05:13'' ''cpu''], seq = 3\<rparr>)"
  by (simp add: store_eval)

text \<open>
  Claim C2: in every sequence of inserts and cleanups on a store whose sequence counter
  covers its rows, as it does in a new database and after every operation, the ids that
  the inserts return are strictly increasing in the order of the calls, hence pairwise
  distinct, and each is greater than the counter and than every id present before the
  sequence; a cleanup in between never makes an id available again. An insert returns an
  id, the counter plus one, as long as the counter is below the largest 64-bit integer.
\<close>

theorem insert_ids_increase:
  "seq_covers (new_database path) \<and>
   (seq_covers db \<longrightarrow>
      sorted_wrt (<) (inserted_ids (fst (run_ops db ops))) \<and>
      distinct (inserted_ids (fst (run_ops db ops))) \<and>
      (\<forall>i \<in> set (inserted_ids (fst (run_ops db ops))).
         seq db < i \<and> (\<forall>r \<in> set (rows db). row_id r < i)) \<and>
      seq_covers (snd (run_ops db ops)) \<and>
      (seq db < 9223372036854775807 \<longrightarrow>
         (\<exists>db'. insert_metrics db now h t d st src = Inr (seq db + 1, db'))))"
proof -
  have "sorted_wrt (<) (inserted_ids (fst (run_ops db ops))) \<and>
      distinct (inserted_ids (fst (run_ops db ops))) \<and>
      (\<forall>i \<in> set (inserted_ids (fst (run_ops db ops))).
         seq db < i \<and> (\<forall>r \<in> set (rows db). row_id r < i)) \<and>
      seq_covers (snd (run_ops db ops))" if c: "seq_covers db"
  proof -
    obtain outs db' where r: "run_ops db ops = (outs, db')" by (cases "run_ops db ops")
    note f = run_ops_ids[OF c r]
    have s: "sorted_wrt (<) (inserted_ids outs)" using f by simp
    then have d: "distinct (inserted_ids outs)"
      by (simp add: strict_sorted_iff)
    have "row_id r' < i" if "i \<in> set (inserted_ids outs)" "r' \<in> set (rows db)" for i r'
    proof -
      have "row_id r' \<le> seq db" using c that(2) by (auto simp: seq_covers_def list_all_iff)
      moreover have "seq db < i" using f that(1) by simp
      ultimately show ?thesis by simp
    qed
    then show ?thesis using f s d by (auto simp: r)
  qed
  moreover have "seq_covers (new_database path)"
    by (simp add: seq_covers_def new_database_def)
  ultimately show ?thesis
    using insert_metrics_succeeds[of db now h t d st src] by blast
qed

theorem insert_ids_increase_witness:
  "seq_covers (new_database ''metrics.db'') \<and>
   inserted_ids (fst (run_ops (new_database ''metrics.db'') example_ops)) = [1, 2, 3] \<and>
   sorted_wrt (<) (inserted_ids (fst (run_ops (new_database ''metrics.db'') example_ops))) \<and>
   fst (run_ops (new_database ''metrics.db'') example_ops)
     = [Inserted 1, Inserted 2, Deleted 2, Inserted 3, Deleted 0, Raised OverflowError] \<and>
   seq example_store < 9223372036854775807 \<and> seq_covers example_store \<and>
   fst (run_ops example_store
          [Insert (mk_datetime 2024 3 3 0 0 0 0) ''web1'' ''cpu'' JNull ''OK'' ''python''])
     = [Inserted 5]"
proof -
  have c: "seq_covers (new_database ''metrics.db'')"
    by (rule insert_ids_increase[THEN conjunct1])
  have e: "seq example_store < 9223372036854775807" "seq_covers example_store"
    by (simp_all add: example_store_def example_row_def seq_covers_def)
  obtain db' where "insert_metrics example_store (mk_datetime 2024 3 3 0 0 0 0)
      ''web1'' ''cpu'' JNull ''OK'' ''python'' = Inr (seq example_store + 1, db')"
    using insert_ids_increase[of "''metrics.db''" example_store, THEN conjunct2, THEN mp,
        OF e(2), THEN conjunct2, THEN conjunct2, THEN conjunct2, THEN conjunct2, THEN mp,
        OF e(1)]
    by blast
  then have i: "fst (run_ops example_store
          [Insert (mk_datetime 2024 3 3 0 0 0 0) ''web1'' ''cpu'' JNull ''OK'' ''python''])
     = [Inserted 5]"
    by (simp add: example_store_def)
  have s: "sorted_wrt (<) (inserted_ids (fst (run_ops (new_database ''metrics.db'') example_ops)))"
    by (rule insert_ids_increase[of "''metrics.db''" "new_database ''metrics.db''", THEN conjunct2,
        THEN mp, OF c, THEN conjunct1])
  show ?thesis
    using c s e i by (simp add: run_example)
qed

lemma month_of_offset:
  fixes n :: int and leap :: bool
  assumes "0 \<le> n" "n \<le> 364"
  defines "m0 \<equiv> nat ((n + 50) div 32)"
  defines "p0 \<equiv> DAYS_BEFORE_MONTH ! m0 + (if m0 > 2 \<and> leap then 1 else 0)"
  defines "m \<equiv> (if p0 > n then m0 - 1 else m0)"
  defines "p \<equiv> (if p0 > n then p0 - (DAYS_IN_MONTH ! (m0 - 1) + (if m0 - 1 = 2 \<and> leap then 1 else 0)) else p0)"
  shows "1 \<le> m \<and> m \<le> 12 \<and> p = DAYS_BEFORE_MONTH ! m + (if m > 2 \<and> leap then 1 else 0) \<and>
         p \<le> n \<and> n - p + 1 \<le> 31"
proof -
  have q: "0 \<le> (n + 50) div 32"
    using assms(1) by (simp add: pos_imp_zdiv_nonneg_iff)
  have "n + 50 = 32 * ((n + 50) div 32) + (n + 50) mod 32"
    "0 \<le> (n + 50) mod 32" "(n + 50) mod 32 < 32"
    by simp_all
  then have "32 * ((n + 50) div 32) \<le> n + 50" "n + 50 < 32 * ((n + 50) div 32) + 32"
    by linarith+
  then have b: "32 * int m0 \<le> n + 50" "n + 50 < 32 * int m0 + 32"
    using q by (simp_all add: m0_def)
  then have "1 \<le> m0" "m0 \<le> 12" using assms(1,2) by auto
  then have "m0 \<in> {1, 2, 3, 4, 5, 6, 7, 8, 9, 10, 11, 12}" by (simp; presburger)
  then show ?thesis
    using b assms(1,2)
    unfolding m_def p_def p0_def DAYS_BEFORE_MONTH_def DAYS_IN_MONTH_def
    by (elim insertE emptyE) (simp_all add: eval_nat_numeral)
qed


lemma year_decomposition:
  fixes a b c e :: int
  assumes "0 \<le> b" "b \<le> 3" "0 \<le> c" "c \<le> 24" "0 \<le> e" "e \<le> 3"
  shows "days_before_year (400 * a + 100 * b + 4 * c + e + 1)
           = 146097 * a + 36524 * b + 1461 * c + 365 * e"
    and "is_leap (400 * a + 100 * b + 4 * c + e + 1) = (e = 3 \<and> (c \<noteq> 24 \<or> b = 3))"
proof -
  define yp where "yp = 400 * a + 100 * b + 4 * c + e"
  have d4: "yp div 4 = 100 * a + 25 * b + c"
    by (rule int_div_pos_eq[where r = e]) (use assms in \<open>simp_all add: yp_def\<close>)
  have d100: "yp div 100 = 4 * a + b"
    by (rule int_div_pos_eq[where r = "4 * c + e"]) (use assms in \<open>simp_all add: yp_def\<close>)
  have d400: "yp div 400 = a"
    by (rule int_div_pos_eq[where r = "100 * b + 4 * c + e"]) (use assms in \<open>simp_all add: yp_def\<close>)
  show "days_before_year (400 * a + 100 * b + 4 * c + e + 1)
           = 146097 * a + 36524 * b + 1461 * c + 365 * e"
    unfolding days_before_year_def Let_def using d4 d100 d400 by (simp add: yp_def)
  have m4: "(yp + 1) mod 4 = (if e = 3 then 0 else e + 1)"
  proof (cases "e = 3")
    case True
    have "(yp + 1) mod 4 = 0"
      by (rule int_mod_pos_eq[where q = "100 * a + 25 * b + c + 1"])
        (use True in \<open>simp_all add: yp_def\<close>)
    then show ?thesis using True by simp
  next
    case False
    have "(yp + 1) mod 4 = e + 1"
      by (rule int_mod_pos_eq[where q = "100 * a + 25 * b + c"])
        (use False assms in \<open>simp_all add: yp_def\<close>)
    then show ?thesis using False by simp
  qed
  have m100: "(yp + 1) mod 100 = (if c = 24 \<and> e = 3 then 0 else 4 * c + e + 1)"
  proof (cases "c = 24 \<and> e = 3")
    case True
    have "(yp + 1) mod 100 = 0"
      by (rule int_mod_pos_eq[where q = "4 * a + b + 1"]) (use True in \<open>simp_all add: yp_def\<close>)
    then show ?thesis using True by simp
  next
    case False
    have "4 * c + e + 1 < 100" using False assms by linarith
    then have "(yp + 1) mod 100 = 4 * c + e + 1"
      by (intro int_mod_pos_eq[where q = "4 * a + b"]) (use assms in \<open>simp_all add: yp_def\<close>)
    then show ?thesis using False by auto
  qed
  have m400: "(yp + 1) mod 400 = (if b = 3 \<and> c = 24 \<and> e = 3 then 0 else 100 * b + 4 * c + e + 1)"
  proof (cases "b = 3 \<and> c = 24 \<and> e = 3")
    case True
    have "(yp + 1) mod 400 = 0"
      by (rule int_mod_pos_eq[where q = "a + 1"]) (use True in \<open>simp_all add: yp_def\<close>)
    then show ?thesis using True by simp
  next
    case False
    have "100 * b + 4 * c + e + 1 < 400" using False assms by linarith
    then have "(yp + 1) mod 400 = 100 * b + 4 * c + e + 1"
      by (intro int_mod_pos_eq[where q = a]) (use assms in \<open>simp_all add: yp_def\<close>)
    then show ?thesis using False by auto
  qed
  show "is_leap (400 * a + 100 * b + 4 * c + e + 1) = (e = 3 \<and> (c \<noteq> 24 \<or> b = 3))"
    using m4 m100 m400 assms unfolding is_leap_def yp_def by auto
qed


lemma divmod_int:
  fixes x k :: int
  assumes "0 \<le> x" "0 < k"
  shows "x = k * (x div k) + x mod k" "0 \<le> x mod k" "x mod k < k" "0 \<le> x div k"
  using assms by (simp_all add: pos_imp_zdiv_nonneg_iff)

lemma ord2ymd_correct:
  assumes "1 \<le> n" "n \<le> 3652059"
  shows "case ord2ymd n of (y, m, d) \<Rightarrow>
           1 \<le> y \<and> y \<le> 9999 \<and> 1 \<le> m \<and> m \<le> 12 \<and> 1 \<le> d \<and> d \<le> 31 \<and> ymd2ord y m d = n"
proof -
  define a where "a = (n - 1) div 146097"
  define r400 where "r400 = (n - 1) mod 146097"
  define b where "b = r400 div 36524"
  define r100 where "r100 = r400 mod 36524"
  define c where "c = r100 div 1461"
  define r4 where "r4 = r100 mod 1461"
  define e where "e = r4 div 365"
  define r1 where "r1 = r4 mod 365"
  have n0: "0 \<le> n - 1" using assms(1) by simp
  note f400 = divmod_int[OF n0, of 146097, folded a_def r400_def, simplified]
  note f100 = divmod_int[OF f400(2), of 36524, folded b_def r100_def, simplified]
  note f4 = divmod_int[OF f100(2), of 1461, folded c_def r4_def, simplified]
  note f1 = divmod_int[OF f4(2), of 365, folded e_def r1_def, simplified]
  have bounds: "a \<le> 24" "b \<le> 4" "c \<le> 24" "e \<le> 4"
    using f400 f100 f4 f1 assms(2) by linarith+
  have unfold: "ord2ymd n =
     (if e = 4 \<or> b = 4 then (nat (400 * a + 1 + 100 * b + 4 * c + e - 1), 12, 31)
      else
        let leapyear = (e = 3 \<and> (c \<noteq> 24 \<or> b = 3));
            m = nat ((r1 + 50) div 32);
            preceding = DAYS_BEFORE_MONTH ! m + (if m > 2 \<and> leapyear then 1 else 0);
            (m, preceding) =
              (if preceding > r1
               then (m - 1,
                     preceding - (DAYS_IN_MONTH ! (m - 1) + (if m - 1 = 2 \<and> leapyear then 1 else 0)))
               else (m, preceding))
        in (nat (400 * a + 1 + 100 * b + 4 * c + e), m, nat (r1 - preceding + 1)))"
    unfolding ord2ymd_def Let_def a_def r400_def b_def r100_def c_def r4_def e_def r1_def
    by (simp add: mult.commute)
  consider (century) "b = 4" | (leapday) "b \<noteq> 4" "e = 4" | (plain) "b \<noteq> 4" "e \<noteq> 4"
    by blast
  then show ?thesis
  proof cases
    case century
    have z: "r100 = 0" "c = 0" "r4 = 0" "e = 0" "r1 = 0"
      using f400 f100 f4 f1 century by linarith+
    have a: "a \<le> 23" using f400 f100 assms(2) century z by linarith
    have y: "400 * a + 1 + 100 * b + 4 * c + e - 1 = 400 * a + 100 * 3 + 4 * 24 + 3 + 1"
      using century z by simp
    have n: "n = 146097 * a + 146097"
      using f400(1) f100(1) century z by linarith
    show ?thesis
      unfolding unfold y using century a f400(4) n
      by (simp add: ymd2ord_def days_before_month_def DAYS_BEFORE_MONTH_def
          year_decomposition[of 3 24 3 a, simplified], linarith)
  next
    case leapday
    have z: "r1 = 0" using f1 f4 leapday(2) by linarith
    have c: "c \<le> 23" using f100 f4 f1 leapday(2) z by linarith
    have b: "b \<le> 3" using bounds(2) leapday(1) by simp
    have y: "400 * a + 1 + 100 * b + 4 * c + e - 1 = 400 * a + 100 * b + 4 * c + 3 + 1"
      using leapday(2) by simp
    have n: "n = 146097 * a + 36524 * b + 1461 * c + 1461"
      using f400(1) f100(1) f4(1) f1(1) leapday(2) z by linarith
    have yb: "400 * a + 100 * b + 4 * c + 3 + 1 \<le> 9999" "1 \<le> 400 * a + 100 * b + 4 * c + 3 + 1"
      using bounds(1) b c f400(4) f100(4) f4(4) by linarith+
    show ?thesis
      unfolding unfold y using leapday yb n c
      by (simp add: ymd2ord_def days_before_month_def DAYS_BEFORE_MONTH_def
          year_decomposition[of b c 3 a, OF f100(4) b f4(4), simplified], linarith)
  next
    case plain
    have b: "b \<le> 3" and e: "e \<le> 3" using bounds plain by simp_all
    define leap where "leap = (e = 3 \<and> (c \<noteq> 24 \<or> b = 3))"
    note yd = year_decomposition[of b c e a, OF f100(4) b f4(4) bounds(3) f1(4) e]
    have r1: "0 \<le> r1" "r1 \<le> 364" using f1 by linarith+
    define m0 where "m0 = nat ((r1 + 50) div 32)"
    define p0 where "p0 = DAYS_BEFORE_MONTH ! m0 + (if m0 > 2 \<and> leap then 1 else 0)"
    define M where "M = (if p0 > r1 then m0 - 1 else m0)"
    define P where "P = (if p0 > r1
      then p0 - (DAYS_IN_MONTH ! (m0 - 1) + (if m0 - 1 = 2 \<and> leap then 1 else 0)) else p0)"
    have mo: "1 \<le> M \<and> M \<le> 12 \<and> P = DAYS_BEFORE_MONTH ! M + (if M > 2 \<and> leap then 1 else 0) \<and>
         P \<le> r1 \<and> r1 - P + 1 \<le> 31"
      using month_of_offset[OF r1, of leap] unfolding M_def P_def p0_def m0_def .
    have n: "n = 146097 * a + 36524 * b + 1461 * c + 365 * e + r1 + 1"
      using f400(1) f100(1) f4(1) f1(1) by linarith
    define Y where "Y = 400 * a + 100 * b + 4 * c + e + 1"
    have ylow: "1 \<le> Y"
      unfolding Y_def using f400(4) f100(4) f4(4) f1(4) by linarith
    have yhigh: "Y \<le> 9999"
    proof (rule ccontr)
      assume "\<not> Y \<le> 9999"
      then have h: "400 * a + 100 * b + 4 * c + e \<ge> 9999" by (simp add: Y_def)
      have "a = 24" using h bounds(1,3) b e by linarith
      moreover from this have "b = 3" using h bounds(3) b e by linarith
      moreover from calculation have "c = 24" using h bounds(3) e by linarith
      moreover from calculation have "e = 3" using h e by linarith
      ultimately show False using n r1(1) assms(2) by linarith
    qed
    have res: "ord2ymd n = (nat Y, M, nat (r1 - P + 1))"
    proof (cases "p0 > r1")
      case True
      then show ?thesis
        unfolding unfold Let_def leap_def[symmetric] m0_def[symmetric] p0_def[symmetric]
        using plain by (simp add: M_def P_def Y_def)
    next
      case False
      then show ?thesis
        unfolding unfold Let_def leap_def[symmetric] m0_def[symmetric] p0_def[symmetric]
        using plain by (simp add: M_def P_def Y_def)
    qed
    have dby: "days_before_year Y = 146097 * a + 36524 * b + 1461 * c + 365 * e"
      and lp: "is_leap Y = leap"
      using yd by (simp_all add: Y_def leap_def)
    have iy: "int (nat Y) = Y" using ylow by simp
    have rt: "ymd2ord (nat Y) M (nat (r1 - P + 1)) = n"
      unfolding ymd2ord_def days_before_month_def iy dby lp using mo by (simp add: n)
    have d: "1 \<le> nat (r1 - P + 1)" "nat (r1 - P + 1) \<le> 31"
      using mo by linarith+
    have y: "1 \<le> nat Y" "nat Y \<le> 9999"
      using ylow yhigh by linarith+
    show ?thesis
      unfolding res prod.case using rt d y mo by blast
  qed
qed

lemma sub_days_correct:
  assumes "sub_days now k = Inr cutoff"
  shows "ymd2ord (year cutoff) (month cutoff) (day cutoff)
           = ymd2ord (year now) (month now) (day now) - k"
    and "hour cutoff = hour now" "minute cutoff = minute now" "second cutoff = second now"
      "microsecond cutoff = microsecond now"
    and "datetime_fields_ok now \<Longrightarrow> datetime_fields_ok cutoff"
proof -
  define n where "n = ymd2ord (year now) (month now) (day now) - k"
  have r: "1 \<le> n" "n \<le> 3652059"
    using assms by (auto simp: sub_days_def n_def Let_def split: if_splits)
  obtain y m d where o: "ord2ymd n = (y, m, d)" by (cases "ord2ymd n")
  have c: "cutoff = now\<lparr>year := y, month := m, day := d\<rparr>"
    using assms r o by (simp add: sub_days_def n_def[symmetric] Let_def split: if_splits)
  note v = ord2ymd_correct[OF r, unfolded o prod.case]
  show "ymd2ord (year cutoff) (month cutoff) (day cutoff)
           = ymd2ord (year now) (month now) (day now) - k"
    using v by (simp add: c n_def)
  show "hour cutoff = hour now" "minute cutoff = minute now" "second cutoff = second now"
    "microsecond cutoff = microsecond now"
    by (simp_all add: c)
  show "datetime_fields_ok cutoff" if "datetime_fields_ok now"
    using that v by (simp add: datetime_fields_ok_def c)
qed

lemma cleanup_eq:
  "sub_days now k = Inr cutoff \<Longrightarrow>
   cleanup_old_records db now k =
     Inr (length (filter (\<lambda>r. timestamp r < isoformat cutoff) (rows db)),
          db\<lparr>rows := filter (\<lambda>r. \<not> timestamp r < isoformat cutoff) (rows db)\<rparr>)"
  by (simp add: cleanup_old_records_def Let_def)

lemma cleanup_noop:
  assumes "sub_days now k = Inr cutoff" "\<forall>r \<in> set (rows db). \<not> timestamp r < isoformat cutoff"
  shows "cleanup_old_records db now k = Inr (0, db)"
proof -
  have "filter (\<lambda>r. timestamp r < isoformat cutoff) (rows db) = []"
    "filter (\<lambda>r. \<not> timestamp r < isoformat cutoff) (rows db) = rows db"
    using assms(2) by (auto simp: filter_empty_conv filter_id_conv)
  then show ?thesis
    by (simp add: cleanup_eq[OF assms(1)])
qed

text \<open>
  Claim C3 speaks of every retention period. A period that reaches back before year 1
  makes the subtraction \<^verbatim>\<open>datetime.utcnow() - timedelta(days=retention_days)\<close> raise
  OverflowError, so the call neither deletes nor returns a count.
\<close>

theorem cleanup_overflow_counterexample:
  "cleanup_old_records example_store (mk_datetime 2024 3 1 7 5 9 0) 1000000 = Inl OverflowError"
  by (simp add: store_eval)

text \<open>
  Claim C3, amended to retention periods for which the cutoff \<open>now - retention\<close> is a
  date of the years 1 to 9999, which are the periods for which the call returns and does
  not raise OverflowError. The cutoff is the datetime whose day number is that of \<open>now\<close>
  less the retention days, at the same time of day. \<^verbatim>\<open>cleanup_old_records\<close> deletes
  exactly the rows whose timestamp is strictly before the ISO string of the cutoff and
  returns their number, which is 0, with the store unchanged, when no row is that old. A
  row stamped with the ISO string of a datetime \<open>t\<close> is deleted exactly when \<open>t\<close> is
  before the cutoff in time. After any sequence of inserts and cleanups on a new database,
  \<^verbatim>\<open>total_records\<close> is the number of inserts that returned minus the sum of the counts
  the cleanups returned.
\<close>

theorem cleanup_spec:
  "(sub_days now k = Inr cutoff \<longrightarrow>
      cleanup_old_records db now k =
        Inr (length (filter (\<lambda>r. timestamp r < isoformat cutoff) (rows db)),
             db\<lparr>rows := filter (\<lambda>r. \<not> timestamp r < isoformat cutoff) (rows db)\<rparr>) \<and>
      ((\<forall>r \<in> set (rows db). \<not> timestamp r < isoformat cutoff) \<longrightarrow>
         cleanup_old_records db now k = Inr (0, db)) \<and>
      ymd2ord (year cutoff) (month cutoff) (day cutoff)
        = ymd2ord (year now) (month now) (day now) - k \<and>
      hour cutoff = hour now \<and> minute cutoff = minute now \<and> second cutoff = second now \<and>
      microsecond cutoff = microsecond now \<and>
      (datetime_fields_ok now \<and> datetime_fields_ok t \<and> timestamp r = isoformat t \<longrightarrow>
         (timestamp r < isoformat cutoff) = datetime_less t cutoff)) \<and>
   (if \<bar>k\<bar> \<le> 999999999 \<and> 0 < ymd2ord (year now) (month now) (day now) - k \<and>
       ymd2ord (year now) (month now) (day now) - k \<le> 3652059
    then \<exists>c n db'. sub_days now k = Inr c \<and> cleanup_old_records db now k = Inr (n, db')
    else cleanup_old_records db now k = Inl OverflowError) \<and>
   int (total_records (get_database_stats (snd (run_ops (new_database path) ops)))) =
     int (length (inserted_ids (fst (run_ops (new_database path) ops))))
     - int (deleted_total (fst (run_ops (new_database path) ops)))"
proof -
  obtain outs db' where r: "run_ops (new_database path) ops = (outs, db')"
    by (cases "run_ops (new_database path) ops")
  have "length (rows db') + deleted_total outs = length (inserted_ids outs)"
    using run_ops_count[OF r] by (simp add: new_database_def)
  then have total: "int (total_records (get_database_stats (snd (run_ops (new_database path) ops)))) =
     int (length (inserted_ids (fst (run_ops (new_database path) ops))))
     - int (deleted_total (fst (run_ops (new_database path) ops)))"
    by (simp add: get_database_stats_def r)
  have raises: "if \<bar>k\<bar> \<le> 999999999 \<and> 0 < ymd2ord (year now) (month now) (day now) - k \<and>
       ymd2ord (year now) (month now) (day now) - k \<le> 3652059
    then \<exists>c n db'. sub_days now k = Inr c \<and> cleanup_old_records db now k = Inr (n, db')
    else cleanup_old_records db now k = Inl OverflowError"
    by (auto simp: sub_days_def cleanup_old_records_def Let_def split: prod.splits)
  have chron: "(timestamp r < isoformat cutoff) = datetime_less t cutoff"
    if "sub_days now k = Inr cutoff"
      "datetime_fields_ok now \<and> datetime_fields_ok t \<and> timestamp r = isoformat t"
    using that isoformat_less_iff[of t cutoff] sub_days_correct(6)[OF that(1)] by simp
  show ?thesis
    using cleanup_eq[of now k cutoff db] cleanup_noop[of now k cutoff db]
      sub_days_correct(1-5)[of now k cutoff] chron
    by (intro conjI impI raises total) blast+
qed

theorem cleanup_spec_witness:
  "sub_days (mk_datetime 2024 3 9 0 0 0 0) 7 = Inr (mk_datetime 2024 3 2 0 0 0 0) \<and>
   cleanup_old_records example_store (mk_datetime 2024 3 9 0 0 0 0) 7
     = Inr (2, example_store\<lparr>rows := [example_row 3 ''2024-03-02T00:00:00'' ''cpu'',
                                        example_row 4 ''2024-03-02T00:00:00.000001'' ''cpu'']\<rparr>) \<and>
   sub_days (mk_datetime 2024 3 1 0 0 0 0) 7 = Inr (mk_datetime 2024 2 23 0 0 0 0) \<and>
   cleanup_old_records example_store (mk_datetime 2024 3 1 0 0 0 0) 7 = Inr (0, example_store) \<and>
   datetime_fields_ok (mk_datetime 2024 3 9 0 0 0 0) \<and>
   datetime_fields_ok (mk_datetime 2024 3 1 7 5 9 500000) \<and>
   timestamp (example_row 2 ''2024-03-01T07:05:09.500000'' ''memory'')
     < isoformat (mk_datetime 2024 3 2 0 0 0 0) \<and>
   ymd2ord 2024 3 2 = ymd2ord 2024 3 9 - 7 \<and>
   total_records (get_database_stats (snd (run_ops (new_database ''metrics.db'') example_ops))) = 1"
proof -
  have s1: "sub_days (mk_datetime 2024 3 9 0 0 0 0) 7 = Inr (mk_datetime 2024 3 2 0 0 0 0)"
    and s2: "sub_days (mk_datetime 2024 3 1 0 0 0 0) 7 = Inr (mk_datetime 2024 2 23 0 0 0 0)"
    by (simp_all add: store_eval)
  have ok: "datetime_fields_ok (mk_datetime 2024 3 9 0 0 0 0)"
    "datetime_fields_ok (mk_datetime 2024 3 1 7 5 9 500000)"
    by (simp_all add: datetime_fields_ok_def mk_datetime_def)
  have ts: "timestamp (example_row 2 ''2024-03-01T07:05:09.500000'' ''memory'')
     = isoformat (mk_datetime 2024 3 1 7 5 9 500000)"
    by (simp add: store_eval)
  note at_cutoff = cleanup_spec[where t = "mk_datetime 2024 3 1 7 5 9 500000",
      THEN conjunct1, THEN mp, OF s1]
  have c1: "cleanup_old_records example_store (mk_datetime 2024 3 9 0 0 0 0) 7
     = Inr (2, example_store\<lparr>rows := [example_row 3 ''2024-03-02T00:00:00'' ''cpu'',
                                        example_row 4 ''2024-03-02T00:00:00.000001'' ''cpu'']\<rparr>)"
    unfolding cleanup_spec[THEN conjunct1, THEN mp, OF s1, THEN conjunct1]
    by (simp add: isoformat_def zero_pad_def decimal.simps mk_datetime_def example_store_def
        example_row_def)
  have old: "\<forall>r \<in> set (rows example_store).
               \<not> timestamp r < isoformat (mk_datetime 2024 2 23 0 0 0 0)"
    by (simp add: isoformat_def zero_pad_def decimal.simps mk_datetime_def example_store_def
        example_row_def)
  have c2: "cleanup_old_records example_store (mk_datetime 2024 3 1 0 0 0 0) 7
              = Inr (0, example_store)"
    by (rule cleanup_spec[THEN conjunct1, THEN mp, OF s2, THEN conjunct2, THEN conjunct1,
          THEN mp, OF old])
  have "(timestamp (example_row 2 ''2024-03-01T07:05:09.500000'' ''memory'')
          < isoformat (mk_datetime 2024 3 2 0 0 0 0))
        = datetime_less (mk_datetime 2024 3 1 7 5 9 500000) (mk_datetime 2024 3 2 0 0 0 0)"
    by (rule at_cutoff[THEN conjunct2,
          THEN conjunct2, THEN conjunct2, THEN conjunct2, THEN conjunct2, THEN conjunct2,
          THEN conjunct2, THEN mp])
      (intro conjI ok ts)
  then have lt: "timestamp (example_row 2 ''2024-03-01T07:05:09.500000'' ''memory'')
     < isoformat (mk_datetime 2024 3 2 0 0 0 0)"
    by (simp add: datetime_less_def mk_datetime_def)
  have "int (total_records (get_database_stats
               (snd (run_ops (new_database ''metrics.db'') example_ops)))) = 3 - 2"
    unfolding cleanup_spec[THEN conjunct2, THEN conjunct2]
    by (simp add: run_example)
  then have tot: "total_records (get_database_stats
               (snd (run_ops (new_database ''metrics.db'') example_ops))) = 1"
    by simp
  have "ymd2ord (year (mk_datetime 2024 3 2 0 0 0 0)) (month (mk_datetime 2024 3 2 0 0 0 0))
          (day (mk_datetime 2024 3 2 0 0 0 0))
        = ymd2ord (year (mk_datetime 2024 3 9 0 0 0 0)) (month (mk_datetime 2024 3 9 0 0 0 0))
          (day (mk_datetime 2024 3 9 0 0 0 0)) - 7"
    by (rule at_cutoff[THEN conjunct2, THEN conjunct2, THEN conjunct1])
  then have od: "ymd2ord 2024 3 2 = ymd2ord 2024 3 9 - 7"
    by (simp add: mk_datetime_def)
  show ?thesis
    by (intro conjI s1 s2 c1 c2 ok lt od tot)
qed

end
